theory Spec2Isabelle
  imports Complex_Main "HOL-Library.Word" "HOL-Library.Sublist" "HOL-Library.Log_Nat"
begin

section \<open>Values of the host language\<close>

text \<open>
  The module \<^verbatim>\<open>src/userValidator.js\<close> is six functions over JavaScript values. A
  string is a sequence of 16-bit code units; \<open>str\<close> writes an ASCII literal as code
  units. A Number is finite, \<open>NaN\<close> or an infinity. A finite Number carries its exact
  rational value, and an arithmetic operation rounds its exact result to a double. The
  two zeros are one value: no function of the module tells them apart.
\<close>

type_synonym jsstring = "16 word list"

definition str :: "string \<Rightarrow> jsstring" where
  "str cs = map of_char cs"

datatype jsnum = Fin rat | NaN | PosInf | NegInf

text \<open>
  A value as the functions can tell values apart: by \<^verbatim>\<open>typeof\<close> and
  \<^verbatim>\<open>Array.isArray\<close>. The elements of an array are of type \<open>'e\<close>; \<open>JObject\<close> is any
  object that is not an array.
\<close>

datatype 'e jsval =
    JUndefined
  | JNull
  | JBool bool
  | JNum jsnum
  | JStr jsstring
  | JArr "'e list"
  | JObject

fun typeof :: "'e jsval \<Rightarrow> string" where
  "typeof JUndefined = ''undefined''"
| "typeof JNull = ''object''"
| "typeof (JBool b) = ''boolean''"
| "typeof (JNum n) = ''number''"
| "typeof (JStr s) = ''string''"
| "typeof (JArr xs) = ''object''"
| "typeof JObject = ''object''"

fun isArray :: "'e jsval \<Rightarrow> bool" where
  "isArray (JArr xs) = True"
| "isArray v = False"

text \<open>\<^verbatim>\<open>new Error(message)\<close>; a \<^verbatim>\<open>throw\<close> is the left injection of the result.\<close>

datatype error = Error string

subsection \<open>Numbers: comparison and arithmetic\<close>

text \<open>
  The comparison of two Numbers (ECMAScript's \<^verbatim>\<open>Number::lessThan\<close>) is undefined when
  either is \<open>NaN\<close>; \<^verbatim>\<open>a < b\<close>, \<^verbatim>\<open>a > b\<close> and \<^verbatim>\<open>a >= b\<close> are read off it, and
  each is false when the comparison is undefined.
\<close>

fun lessThan_num :: "jsnum \<Rightarrow> jsnum \<Rightarrow> bool option" where
  "lessThan_num NaN y = None"
| "lessThan_num x NaN = None"
| "lessThan_num (Fin a) (Fin b) = Some (a < b)"
| "lessThan_num PosInf y = Some False"
| "lessThan_num x PosInf = Some True"
| "lessThan_num x NegInf = Some False"
| "lessThan_num NegInf y = Some True"

definition js_lt :: "jsnum \<Rightarrow> jsnum \<Rightarrow> bool" where
  "js_lt a b = (lessThan_num a b = Some True)"

definition js_gt :: "jsnum \<Rightarrow> jsnum \<Rightarrow> bool" where
  "js_gt a b = (lessThan_num b a = Some True)"

definition js_ge :: "jsnum \<Rightarrow> jsnum \<Rightarrow> bool" where
  "js_ge a b = (lessThan_num a b = Some False)"

text \<open>
  The result of an arithmetic operation on finite Numbers is the exact result rounded
  to the nearest double, a tie going to the double with the even significand (IEEE 754
  binary64). \<open>floor_log2 x\<close> is the binary exponent of a positive \<open>x\<close>, the largest
  \<open>e\<close> with \<open>2 powi e \<le> x\<close>. The doubles of exponent \<open>e\<close> are the multiples of
  \<open>2 powi (e - 52)\<close>, and those below the exponent \<open>- 1022\<close> are spaced as those of
  exponent \<open>- 1022\<close>. A result that rounds to \<open>2 powi 1024\<close> or beyond is an infinity;
  this can only be at an exponent of 1023 or more.
\<close>

definition round_half_even :: "rat \<Rightarrow> int" where
  "round_half_even x =
     (let f = \<lfloor>x\<rfloor>; d = x - of_int f
      in if d < 1 / 2 then f else if 1 / 2 < d then f + 1 else if even f then f else f + 1)"

definition floor_log2 :: "rat \<Rightarrow> int" where
  "floor_log2 x =
     (if 1 \<le> x then int (floorlog 2 (nat \<lfloor>x\<rfloor>)) - 1
      else - int (floorlog 2 (nat (\<lceil>1 / x\<rceil> - 1))))"

definition round_to_double :: "rat \<Rightarrow> jsnum" where
  "round_to_double x =
     (if x = 0 then Fin 0
      else
        let e = max (floor_log2 \<bar>x\<bar>) (- 1022);
            ulp = 2 powi (e - 52);
            y = of_int (round_half_even (x / ulp)) * ulp
        in if e < 1023 then Fin y
           else if 2 powi 1024 \<le> \<bar>y\<bar> then (if 0 < x then PosInf else NegInf)
           else Fin y)"

fun js_add :: "jsnum \<Rightarrow> jsnum \<Rightarrow> jsnum" where
  "js_add NaN y = NaN"
| "js_add x NaN = NaN"
| "js_add (Fin a) (Fin b) = round_to_double (a + b)"
| "js_add PosInf NegInf = NaN"
| "js_add NegInf PosInf = NaN"
| "js_add (Fin a) y = y"
| "js_add x y = x"

fun js_mul :: "jsnum \<Rightarrow> jsnum \<Rightarrow> jsnum" where
  "js_mul NaN y = NaN"
| "js_mul x NaN = NaN"
| "js_mul (Fin a) (Fin b) = round_to_double (a * b)"
| "js_mul (Fin a) y = (if a = 0 then NaN else if (0 < a) = (y = PosInf) then PosInf else NegInf)"
| "js_mul x (Fin b) = (if b = 0 then NaN else if (0 < b) = (x = PosInf) then PosInf else NegInf)"
| "js_mul x y = (if x = y then PosInf else NegInf)"

fun js_div :: "jsnum \<Rightarrow> jsnum \<Rightarrow> jsnum" where
  "js_div NaN y = NaN"
| "js_div x NaN = NaN"
| "js_div (Fin a) (Fin b) =
     (if b = 0 then (if a = 0 then NaN else if 0 < a then PosInf else NegInf)
      else round_to_double (a / b))"
| "js_div (Fin a) y = Fin 0"
| "js_div x (Fin b) = (if (0 \<le> b) = (x = PosInf) then PosInf else NegInf)"
| "js_div x y = NaN"

text \<open>
  \<^verbatim>\<open>Math.round\<close>: the integer closest to the argument, and of two equally close
  integers the one closer to plus infinity. The integer is a double when the argument
  is one.
\<close>

fun Math_round :: "jsnum \<Rightarrow> jsnum" where
  "Math_round (Fin x) = Fin (of_int \<lfloor>x + 1 / 2\<rfloor>)"
| "Math_round x = x"

subsection \<open>Strings\<close>

definition charAt :: "jsstring \<Rightarrow> nat \<Rightarrow> jsstring" where
  "charAt s i = (if i < length s then [s ! i] else [])"

definition slice :: "jsstring \<Rightarrow> nat \<Rightarrow> jsstring" where
  "slice s start = drop start s"

text \<open>
  What the module takes from its host: the case conversions of strings, which follow
  the host's Unicode tables, and the clock, read as \<^verbatim>\<open>new Date().toISOString()\<close>.
\<close>

record host =
  toUpperCase :: "jsstring \<Rightarrow> jsstring"
  toLowerCase :: "jsstring \<Rightarrow> jsstring"
  now_toISOString :: jsstring

subsection \<open>Regular expressions\<close>

text \<open>
  The three patterns of the module are sequences of terms, each a character class taken
  once or one or more times (\<^verbatim>\<open>+\<close>), between optional anchors \<^verbatim>\<open>^\<close> and \<^verbatim>\<open>$\<close>.
  None has a flag, so a class is tested on one code unit, \<^verbatim>\<open>$\<close> is the end of the
  input and \<^verbatim>\<open>test\<close> keeps no state.
\<close>

datatype cclass = Digit | Space | Chr "16 word" | Range "16 word" "16 word"

datatype atom = Cls cclass | AnyOf "cclass list" | NoneOf "cclass list"

datatype quant = Once | OneOrMore

datatype regex = Regex bool "(atom \<times> quant) list" bool

text \<open>\<^verbatim>\<open>\s\<close> is ECMAScript's white space and line terminators.\<close>

definition is_space :: "16 word \<Rightarrow> bool" where
  "is_space c \<longleftrightarrow>
     (0x09 \<le> c \<and> c \<le> 0x0D) \<or> c = 0x20 \<or> c = 0xA0 \<or> c = 0x1680 \<or>
     (0x2000 \<le> c \<and> c \<le> 0x200A) \<or> c = 0x2028 \<or> c = 0x2029 \<or> c = 0x202F \<or>
     c = 0x205F \<or> c = 0x3000 \<or> c = 0xFEFF"

fun in_class :: "cclass \<Rightarrow> 16 word \<Rightarrow> bool" where
  "in_class Digit c = (0x30 \<le> c \<and> c \<le> 0x39)"
| "in_class Space c = is_space c"
| "in_class (Chr k) c = (c = k)"
| "in_class (Range lo hi) c = (lo \<le> c \<and> c \<le> hi)"

fun atom_matches :: "atom \<Rightarrow> 16 word \<Rightarrow> bool" where
  "atom_matches (Cls k) c = in_class k c"
| "atom_matches (AnyOf ks) c = list_ex (\<lambda>k. in_class k c) ks"
| "atom_matches (NoneOf ks) c = (\<not> list_ex (\<lambda>k. in_class k c) ks)"

text \<open>
  \<open>match_here e ts s\<close>: the terms \<open>ts\<close> match a prefix of \<open>s\<close>, and all of \<open>s\<close> when
  the pattern ends with \<^verbatim>\<open>$\<close> (\<open>e\<close>). A repeated term takes one unit and then either
  repeats or hands over to the rest of the pattern.
\<close>

fun match_here :: "bool \<Rightarrow> (atom \<times> quant) list \<Rightarrow> jsstring \<Rightarrow> bool" where
  "match_here e [] s = (if e then s = [] else True)"
| "match_here e ((a, q) # ts) [] = False"
| "match_here e ((a, Once) # ts) (c # cs) = (atom_matches a c \<and> match_here e ts cs)"
| "match_here e ((a, OneOrMore) # ts) (c # cs) =
     (atom_matches a c \<and> (match_here e ((a, OneOrMore) # ts) cs \<or> match_here e ts cs))"

text \<open>
  \<^verbatim>\<open>RegExp.prototype.test\<close>: with \<^verbatim>\<open>^\<close> the match starts at index 0, otherwise at any
  index of the string.
\<close>

fun RegExp_test :: "regex \<Rightarrow> jsstring \<Rightarrow> bool" where
  "RegExp_test (Regex True ts e) s = match_here e ts s"
| "RegExp_test (Regex False ts e) s = list_ex (match_here e ts) (suffixes s)"

section \<open>The module\<close>

text \<open>
  Each function is the function of that name in the source. On an argument, the
  pattern \<open>JStr s\<close> is the test \<^verbatim>\<open>typeof x === 'string'\<close>, \<open>JNum n\<close> is
  \<^verbatim>\<open>typeof x === 'number'\<close> and \<open>JArr xs\<close> is \<^verbatim>\<open>Array.isArray(x)\<close>; the later
  equations of a function are the branches the source takes when a test fails.
  \<^verbatim>\<open>Array.prototype.filter\<close> is \<open>filter\<close> and \<^verbatim>\<open>reduce\<close> with a start value is
  \<open>foldl\<close>: neither writes to the array it reads.
\<close>

subsection \<open>validateEmail\<close>

text \<open>\<^verbatim>\<open>/^[^\s@]+@[^\s@]+\.[^\s@]+$/\<close>\<close>

definition emailRegex :: regex where
  "emailRegex = Regex True
     [(NoneOf [Space, Chr 0x40], OneOrMore), (Cls (Chr 0x40), Once),
      (NoneOf [Space, Chr 0x40], OneOrMore), (Cls (Chr 0x2E), Once),
      (NoneOf [Space, Chr 0x40], OneOrMore)] True"

fun validateEmail :: "'e jsval \<Rightarrow> bool" where
  "validateEmail (JStr email) = RegExp_test emailRegex email"
| "validateEmail email = False"

subsection \<open>validatePassword\<close>

text \<open>\<^verbatim>\<open>/\d/\<close> and \<^verbatim>\<open>/[A-Z]/\<close>\<close>

definition digitRegex :: regex where
  "digitRegex = Regex False [(Cls Digit, Once)] False"

definition upperCaseRegex :: regex where
  "upperCaseRegex = Regex False [(AnyOf [Range 0x41 0x5A], Once)] False"

fun validatePassword :: "'e jsval \<Rightarrow> bool" where
  "validatePassword (JStr password) =
     (if length password < 8 then False
      else
        let hasDigit = RegExp_test digitRegex password;
            hasUpperCase = RegExp_test upperCaseRegex password
        in hasDigit \<and> hasUpperCase)"
| "validatePassword password = False"

subsection \<open>filterUsersByAge\<close>

text \<open>
  An element of a user list is an object with a Number in its \<open>age\<close> field, as the
  module documents its arguments; the other fields of an element are the record's
  extension.
\<close>

record user =
  age :: jsnum

fun filterUsersByAge :: "('a user_scheme) jsval \<Rightarrow> ('a user_scheme) jsval \<Rightarrow> error + 'a user_scheme list" where
  "filterUsersByAge (JArr users) (JNum minAge) =
     (if js_lt minAge (Fin 0) then Inl (Error ''MinAge must be a positive number'')
      else Inr (filter (\<lambda>user. js_ge (age user) minAge) users))"
| "filterUsersByAge (JArr users) minAge = Inl (Error ''MinAge must be a positive number'')"
| "filterUsersByAge users minAge = Inl (Error ''Users must be an array'')"

subsection \<open>formatUserName\<close>

fun formatUserName :: "host \<Rightarrow> 'e jsval \<Rightarrow> error + jsstring" where
  "formatUserName h (JStr name) =
     (if length name = 0 then Inl (Error ''Name must be a non-empty string'')
      else Inr (toUpperCase h (charAt name 0) @ toLowerCase h (slice name 1)))"
| "formatUserName h name = Inl (Error ''Name must be a non-empty string'')"

subsection \<open>calculateAverageAge\<close>

fun calculateAverageAge :: "('a user_scheme) jsval \<Rightarrow> error + jsnum" where
  "calculateAverageAge (JArr users) =
     (if length users = 0 then Inl (Error ''Users must be a non-empty array'')
      else
        let totalAge = foldl (\<lambda>sum user. js_add sum (age user)) (Fin 0) users
        in Inr (js_div (Math_round (js_mul (js_div totalAge (Fin (of_nat (length users)))) (Fin 100)))
                  (Fin 100)))"
| "calculateAverageAge users = Inl (Error ''Users must be a non-empty array'')"

subsection \<open>createUser\<close>

text \<open>
  The argument is a mapping from field names to values; a field it does not have reads
  as \<^verbatim>\<open>undefined\<close>, and fields other than the four are never read.
\<close>

definition field :: "(string \<rightharpoonup> 'e jsval) \<Rightarrow> string \<Rightarrow> 'e jsval" where
  "field obj k = (case obj k of None \<Rightarrow> JUndefined | Some v \<Rightarrow> v)"

record 'e userRecord =
  email :: "'e jsval"
  name :: jsstring
  age :: "'e jsval"
  createdAt :: jsstring

definition createUser :: "host \<Rightarrow> (string \<rightharpoonup> 'e jsval) \<Rightarrow> error + 'e userRecord" where
  "createUser h userData =
     (let email = field userData ''email'';
          password = field userData ''password'';
          name = field userData ''name'';
          age = field userData ''age''
      in if \<not> validateEmail email then Inl (Error ''Invalid email'')
         else if \<not> validatePassword password then Inl (Error ''Invalid password'')
         else if (case age of JNum n \<Rightarrow> js_lt n (Fin 0) \<or> js_gt n (Fin 150) | _ \<Rightarrow> True)
           then Inl (Error ''Invalid age'')
         else (case formatUserName h name of
                 Inl e \<Rightarrow> Inl e
               | Inr formatted \<Rightarrow>
                   Inr \<lparr>email = email, name = formatted, age = age,
                        createdAt = now_toISOString h\<rparr>))"

section \<open>The specification's words\<close>

text \<open>
  The pattern of an email as the specification words it: one or more characters that
  are neither white space nor \<^verbatim>\<open>@\<close>, an \<^verbatim>\<open>@\<close>, one or more such characters, a dot,
  one or more such characters, and nothing before or after.
\<close>

definition non_space_non_at :: "16 word \<Rightarrow> bool" where
  "non_space_non_at c \<longleftrightarrow> \<not> is_space c \<and> c \<noteq> 0x40"

definition matches_email_pattern :: "jsstring \<Rightarrow> bool" where
  "matches_email_pattern s \<longleftrightarrow>
     (\<exists>a b c. s = a @ [0x40] @ b @ [0x2E] @ c \<and> a \<noteq> [] \<and> b \<noteq> [] \<and> c \<noteq> [] \<and>
        list_all non_space_non_at a \<and> list_all non_space_non_at b \<and>
        list_all non_space_non_at c)"

text \<open>The ASCII digits \<^verbatim>\<open>0\<close> to \<^verbatim>\<open>9\<close> and the ASCII upper-case letters \<^verbatim>\<open>A\<close> to \<^verbatim>\<open>Z\<close>.\<close>

definition ascii_digit :: "16 word \<Rightarrow> bool" where
  "ascii_digit c \<longleftrightarrow> 0x30 \<le> c \<and> c \<le> 0x39"

definition ascii_uppercase :: "16 word \<Rightarrow> bool" where
  "ascii_uppercase c \<longleftrightarrow> 0x41 \<le> c \<and> c \<le> 0x5A"

text \<open>
  Rounding to an integer with a half going away from zero, as the specification's
  glossary defines it.
\<close>

definition round_half_away_from_zero :: "rat \<Rightarrow> rat" where
  "round_half_away_from_zero x =
     (if 0 \<le> x then of_int \<lfloor>x + 1 / 2\<rfloor> else - of_int \<lfloor>- x + 1 / 2\<rfloor>)"

text \<open>
  A rational is a double when rounding leaves it as it is. \<open>running_sums 0 qs\<close> are
  the values the sum takes while \<open>qs\<close> is added up from the left.
\<close>

definition is_double :: "rat \<Rightarrow> bool" where
  "is_double x \<longleftrightarrow> round_to_double x = Fin x"

fun running_sums :: "rat \<Rightarrow> rat list \<Rightarrow> rat list" where
  "running_sums z [] = []"
| "running_sums z (q # qs) = (z + q) # running_sums (z + q) qs"

text \<open>
  The sum of a list of ages in doubles, added from the left and starting at 0, and
  100 times the quotient of that sum by the number of ages, in doubles: what the module
  hands to \<^verbatim>\<open>Math.round\<close>.
\<close>

definition double_sum :: "jsnum list \<Rightarrow> jsnum" where
  "double_sum ages = foldl js_add (Fin 0) ages"

definition double_mean_times_100 :: "jsnum list \<Rightarrow> jsnum" where
  "double_mean_times_100 ages =
     js_mul (js_div (double_sum ages) (Fin (of_nat (length ages)))) (Fin 100)"

section \<open>Hosts\<close>

text \<open>
  On a string of ASCII characters every host converts case letter by letter:
  \<^verbatim>\<open>a\<close> to \<^verbatim>\<open>z\<close> to upper case and \<^verbatim>\<open>A\<close> to \<^verbatim>\<open>Z\<close> to lower case, every
  other ASCII character unchanged. \<open>ascii_conformant\<close> says so of a host.
\<close>

definition ascii_upper :: "16 word \<Rightarrow> 16 word" where
  "ascii_upper c = (if 0x61 \<le> c \<and> c \<le> 0x7A then c - 0x20 else c)"

definition ascii_lower :: "16 word \<Rightarrow> 16 word" where
  "ascii_lower c = (if 0x41 \<le> c \<and> c \<le> 0x5A then c + 0x20 else c)"

definition is_ascii :: "jsstring \<Rightarrow> bool" where
  "is_ascii s = list_all (\<lambda>c. c < 0x80) s"

definition ascii_conformant :: "host \<Rightarrow> bool" where
  "ascii_conformant h \<longleftrightarrow>
     (\<forall>s. is_ascii s \<longrightarrow>
        toUpperCase h s = map ascii_upper s \<and> toLowerCase h s = map ascii_lower s)"

text \<open>
  A host for closed statements. Its case conversions are Unicode's on the ASCII
  characters and on U+00DF, the sharp s, whose upper case is the two letters
  \<^verbatim>\<open>SS\<close>; it is used on strings of these characters only.
\<close>

definition sharp_s_upper :: "16 word \<Rightarrow> jsstring" where
  "sharp_s_upper c = (if c = 0xDF then [0x53, 0x53] else [ascii_upper c])"

definition sample_host :: host where
  "sample_host =
     \<lparr>toUpperCase = (\<lambda>s. concat (map sharp_s_upper s)),
      toLowerCase = map ascii_lower,
      now_toISOString = str ''2024-01-01T00:00:00.000Z''\<rparr>"

section \<open>Example data\<close>

text \<open>The four users and the valid input of the test suite.\<close>

definition example_users :: "user list" where
  "example_users =
     [\<lparr>user.age = Fin 25\<rparr>, \<lparr>user.age = Fin 17\<rparr>, \<lparr>user.age = Fin 30\<rparr>, \<lparr>user.age = Fin 16\<rparr>]"

definition validUserData :: "string \<rightharpoonup> user jsval" where
  "validUserData =
     [''email'' \<mapsto> JStr (str ''test@example.com''),
      ''password'' \<mapsto> JStr (str ''Password123''),
      ''name'' \<mapsto> JStr (str ''john''),
      ''age'' \<mapsto> JNum (Fin 25)]"

text \<open>Users of ages 20, 21 and 22, as in the test suite, and of ages 1, 2 and 2.\<close>

definition users_20_21_22 :: "user list" where
  "users_20_21_22 = [\<lparr>user.age = Fin 20\<rparr>, \<lparr>user.age = Fin 21\<rparr>, \<lparr>user.age = Fin 22\<rparr>]"

definition users_1_2_2 :: "user list" where
  "users_1_2_2 = [\<lparr>user.age = Fin 1\<rparr>, \<lparr>user.age = Fin 2\<rparr>, \<lparr>user.age = Fin 2\<rparr>]"

text \<open>Thirty-nine users of age 20 and one of age 21.\<close>

definition forty_users :: "user list" where
  "forty_users = replicate 39 \<lparr>user.age = Fin 20\<rparr> @ [\<lparr>user.age = Fin 21\<rparr>]"

section \<open>Regular expressions: what a match is\<close>

lemma match_here_Once:
  "match_here e ((a, Once) # ts) s \<longleftrightarrow>
     (\<exists>c cs. s = c # cs \<and> atom_matches a c \<and> match_here e ts cs)"
  by (cases s) auto

lemma match_here_OneOrMore:
  "match_here e ((a, OneOrMore) # ts) s \<longleftrightarrow>
     (\<exists>x y. s = x @ y \<and> x \<noteq> [] \<and> list_all (atom_matches a) x \<and> match_here e ts y)"
proof (induction s)
  case Nil
  then show ?case by simp
next
  case (Cons c cs)
  show ?case
  proof
    assume "match_here e ((a, OneOrMore) # ts) (c # cs)"
    then have c: "atom_matches a c"
      and d: "match_here e ((a, OneOrMore) # ts) cs \<or> match_here e ts cs"
      by simp_all
    from d show "\<exists>x y. c # cs = x @ y \<and> x \<noteq> [] \<and> list_all (atom_matches a) x \<and> match_here e ts y"
    proof
      assume "match_here e ((a, OneOrMore) # ts) cs"
      then obtain x y where "cs = x @ y" "list_all (atom_matches a) x" "match_here e ts y"
        using Cons.IH by blast
      with c have "c # cs = (c # x) @ y \<and> c # x \<noteq> [] \<and>
          list_all (atom_matches a) (c # x) \<and> match_here e ts y"
        by simp
      then show ?thesis by blast
    next
      assume "match_here e ts cs"
      with c have "c # cs = [c] @ cs \<and> [c] \<noteq> [] \<and>
          list_all (atom_matches a) [c] \<and> match_here e ts cs"
        by simp
      then show ?thesis by blast
    qed
  next
    assume "\<exists>x y. c # cs = x @ y \<and> x \<noteq> [] \<and> list_all (atom_matches a) x \<and> match_here e ts y"
    then obtain x y where xy: "c # cs = x @ y" "x \<noteq> []" "list_all (atom_matches a) x"
        "match_here e ts y"
      by blast
    then obtain x' where x: "x = c # x'" "cs = x' @ y"
      by (cases x) auto
    show "match_here e ((a, OneOrMore) # ts) (c # cs)"
    proof (cases "x' = []")
      case True
      with x xy show ?thesis by simp
    next
      case False
      with x xy have "match_here e ((a, OneOrMore) # ts) cs"
        using Cons.IH by auto
      with x xy show ?thesis by simp
    qed
  qed
qed

lemma match_here_last_OneOrMore:
  "match_here True [(a, OneOrMore)] s \<longleftrightarrow> s \<noteq> [] \<and> list_all (atom_matches a) s"
  by (simp add: match_here_OneOrMore)

lemma match_here_Chr:
  "match_here e ((Cls (Chr k), Once) # ts) s \<longleftrightarrow> (\<exists>cs. s = k # cs \<and> match_here e ts cs)"
  by (cases s) auto

text \<open>A pattern of the shape \<^verbatim>\<open>^a+ k a+ l a+$\<close> cuts the string in three runs of \<open>a\<close>.\<close>

lemma match_here_three_runs:
  "match_here True [(a, OneOrMore), (Cls (Chr k), Once), (a, OneOrMore), (Cls (Chr l), Once),
       (a, OneOrMore)] s \<longleftrightarrow>
     (\<exists>x y z. s = x @ [k] @ y @ [l] @ z \<and> x \<noteq> [] \<and> y \<noteq> [] \<and> z \<noteq> [] \<and>
        list_all (atom_matches a) x \<and> list_all (atom_matches a) y \<and>
        list_all (atom_matches a) z)"
  (is "?L \<longleftrightarrow> ?R")
proof
  assume ?L
  then obtain x r1 where 1: "s = x @ r1" "x \<noteq> []" "list_all (atom_matches a) x"
    and m1: "match_here True
      [(Cls (Chr k), Once), (a, OneOrMore), (Cls (Chr l), Once), (a, OneOrMore)] r1"
    unfolding match_here_OneOrMore [of True a
        "[(Cls (Chr k), Once), (a, OneOrMore), (Cls (Chr l), Once), (a, OneOrMore)]"]
    by blast
  from m1 obtain r2 where 2: "r1 = k # r2"
    and m2: "match_here True [(a, OneOrMore), (Cls (Chr l), Once), (a, OneOrMore)] r2"
    unfolding match_here_Chr by blast
  from m2 obtain y r3 where 3: "r2 = y @ r3" "y \<noteq> []" "list_all (atom_matches a) y"
    and m3: "match_here True [(Cls (Chr l), Once), (a, OneOrMore)] r3"
    unfolding match_here_OneOrMore [of True a "[(Cls (Chr l), Once), (a, OneOrMore)]"]
    by blast
  from m3 obtain z where 4: "r3 = l # z" and m4: "match_here True [(a, OneOrMore)] z"
    unfolding match_here_Chr by blast
  from m4 have 5: "z \<noteq> []" "list_all (atom_matches a) z"
    by (simp_all add: match_here_last_OneOrMore)
  have "s = x @ [k] @ y @ [l] @ z"
    using 1 2 3 4 by simp
  with 1 3 5 show ?R by blast
next
  assume ?R
  then obtain x y z where s: "s = x @ [k] @ y @ [l] @ z"
    and ne: "x \<noteq> []" "y \<noteq> []" "z \<noteq> []"
    and cl: "list_all (atom_matches a) x" "list_all (atom_matches a) y"
      "list_all (atom_matches a) z"
    by blast
  have m4: "match_here True [(a, OneOrMore)] z"
    using ne cl by (simp add: match_here_last_OneOrMore)
  then have m3: "match_here True [(Cls (Chr l), Once), (a, OneOrMore)] (l # z)"
    by simp
  have m2: "match_here True [(a, OneOrMore), (Cls (Chr l), Once), (a, OneOrMore)] (y @ l # z)"
    unfolding match_here_OneOrMore [of True a "[(Cls (Chr l), Once), (a, OneOrMore)]"]
    using ne cl m3 by blast
  then have m1: "match_here True
      [(Cls (Chr k), Once), (a, OneOrMore), (Cls (Chr l), Once), (a, OneOrMore)] (k # y @ l # z)"
    by simp
  have "match_here True [(a, OneOrMore), (Cls (Chr k), Once), (a, OneOrMore),
       (Cls (Chr l), Once), (a, OneOrMore)] (x @ k # y @ l # z)"
    unfolding match_here_OneOrMore [of True a
        "[(Cls (Chr k), Once), (a, OneOrMore), (Cls (Chr l), Once), (a, OneOrMore)]"]
    using ne cl m1 by blast
  then show ?L using s by simp
qed

lemma atom_NoneOf_space_at: "atom_matches (NoneOf [Space, Chr 0x40]) = non_space_non_at"
  by (rule ext) (simp add: non_space_non_at_def)

lemma emailRegex_test: "RegExp_test emailRegex s = matches_email_pattern s"
  unfolding emailRegex_def matches_email_pattern_def RegExp_test.simps
    match_here_three_runs atom_NoneOf_space_at ..

text \<open>An unanchored pattern of one class finds a unit of the class anywhere.\<close>

lemma test_single_Once:
  "RegExp_test (Regex False [(a, Once)] False) s \<longleftrightarrow> list_ex (atom_matches a) s"
proof -
  have "(\<exists>t. suffix t s \<and> match_here False [(a, Once)] t) \<longleftrightarrow> (\<exists>c\<in>set s. atom_matches a c)"
  proof
    assume "\<exists>t. suffix t s \<and> match_here False [(a, Once)] t"
    then obtain t c cs where "suffix t s" "t = c # cs" "atom_matches a c"
      by (auto simp: match_here_Once)
    then show "\<exists>c\<in>set s. atom_matches a c"
      by (auto simp: suffix_def)
  next
    assume "\<exists>c\<in>set s. atom_matches a c"
    then obtain c where c: "c \<in> set s" "atom_matches a c" by blast
    then obtain ys zs where "s = ys @ c # zs" by (auto simp: in_set_conv_decomp)
    with c have "suffix (c # zs) s \<and> match_here False [(a, Once)] (c # zs)"
      by (simp add: suffix_def)
    then show "\<exists>t. suffix t s \<and> match_here False [(a, Once)] t" by blast
  qed
  then show ?thesis
    by (simp add: list_ex_iff Bex_def)
qed

lemma digitRegex_test: "RegExp_test digitRegex s = list_ex ascii_digit s"
proof -
  have "atom_matches (Cls Digit) = ascii_digit"
    by (rule ext) (simp add: ascii_digit_def)
  then show ?thesis
    by (simp only: digitRegex_def test_single_Once)
qed

lemma upperCaseRegex_test: "RegExp_test upperCaseRegex s = list_ex ascii_uppercase s"
proof -
  have "atom_matches (AnyOf [Range 0x41 0x5A]) = ascii_uppercase"
    by (rule ext) (simp add: ascii_uppercase_def)
  then show ?thesis
    by (simp only: upperCaseRegex_def test_single_Once)
qed

lemma typeof_string: "typeof v = ''string'' \<longleftrightarrow> (\<exists>s. v = JStr s)"
  by (cases v) simp_all

lemma typeof_number: "typeof v = ''number'' \<longleftrightarrow> (\<exists>n. v = JNum n)"
  by (cases v) simp_all

lemma isArray_iff: "isArray v \<longleftrightarrow> (\<exists>xs. v = JArr xs)"
  by (cases v) simp_all

section \<open>validateEmail\<close>

lemma validateEmail_examples:
  "validateEmail (JStr (str ''test@example.com''))"
  "\<not> validateEmail (JStr (str ''testexample.com''))"
  "\<not> validateEmail (JStr (str ''test@''))"
  by (simp_all add: str_def emailRegex_def is_space_def)

text \<open>
  C4. \<open>validateEmail\<close> is a total function to the booleans. It is false on every
  value that is not a string, and on a string it is true exactly when the whole string
  is: one or more characters that are neither white space nor \<^verbatim>\<open>@\<close>, then \<^verbatim>\<open>@\<close>, then
  one or more such characters, then a dot, then one or more such characters. It accepts
  \<^verbatim>\<open>test@example.com\<close> and rejects \<^verbatim>\<open>testexample.com\<close> and \<^verbatim>\<open>test@\<close>.
\<close>

theorem validateEmail_pattern:
  "(typeof v \<noteq> ''string'' \<longrightarrow> validateEmail v = False) \<and>
   (\<forall>s. validateEmail (JStr s) = matches_email_pattern s) \<and>
   validateEmail (JStr (str ''test@example.com'')) \<and>
   \<not> validateEmail (JStr (str ''testexample.com'')) \<and>
   \<not> validateEmail (JStr (str ''test@''))"
proof -
  have "typeof v \<noteq> ''string'' \<longrightarrow> validateEmail v = False"
    by (cases v) simp_all
  moreover have "\<forall>s. validateEmail (JStr s) = matches_email_pattern s"
    by (simp add: emailRegex_test)
  ultimately show ?thesis
    using validateEmail_examples by blast
qed

theorem validateEmail_pattern_witness:
  "typeof (JNum (Fin 5)) \<noteq> ''string'' \<and> validateEmail (JNum (Fin 5)) = False \<and>
   matches_email_pattern (str ''test@example.com'')"
proof -
  have "matches_email_pattern (str ''test@example.com'')"
    using validateEmail_pattern [of "JNum (Fin 5)"] by blast
  then show ?thesis by simp
qed

section \<open>validatePassword\<close>

lemma validatePassword_examples:
  "validatePassword (JStr (str ''Password1''))"
  "\<not> validatePassword (JStr (str ''Pass1''))"
  "\<not> validatePassword (JStr (str ''password123''))"
  "\<not> validatePassword (JStr (str ''PASSWORD''))"
  "\<not> validatePassword (JNum (Fin 12345678))"
  by (simp_all add: str_def digitRegex_test upperCaseRegex_test ascii_digit_def
      ascii_uppercase_def)

text \<open>
  C3. \<open>validatePassword\<close> is a total function to the booleans. It is true exactly on
  the strings of at least 8 code units that hold an ASCII digit and an ASCII upper-case
  letter. It accepts \<^verbatim>\<open>Password1\<close> and rejects \<^verbatim>\<open>Pass1\<close>, \<^verbatim>\<open>password123\<close>,
  \<^verbatim>\<open>PASSWORD\<close> and the number 12345678.
\<close>

theorem validatePassword_iff:
  "(validatePassword v \<longleftrightarrow>
      (\<exists>s. v = JStr s \<and> 8 \<le> length s \<and> list_ex ascii_digit s \<and> list_ex ascii_uppercase s)) \<and>
   validatePassword (JStr (str ''Password1'')) \<and>
   \<not> validatePassword (JStr (str ''Pass1'')) \<and>
   \<not> validatePassword (JStr (str ''password123'')) \<and>
   \<not> validatePassword (JStr (str ''PASSWORD'')) \<and>
   \<not> validatePassword (JNum (Fin 12345678))"
proof -
  have "validatePassword v \<longleftrightarrow>
      (\<exists>s. v = JStr s \<and> 8 \<le> length s \<and> list_ex ascii_digit s \<and> list_ex ascii_uppercase s)"
    by (cases v) (auto simp: digitRegex_test upperCaseRegex_test)
  then show ?thesis
    using validatePassword_examples by blast
qed

section \<open>Numbers\<close>

lemma js_ge_not_lt: "js_ge a b \<Longrightarrow> \<not> js_lt a b"
  by (simp add: js_ge_def js_lt_def)

lemma js_ge_not_gt: "js_ge a b \<Longrightarrow> \<not> js_gt b a"
  by (simp add: js_ge_def js_gt_def)

lemma js_cmp_Fin [simp]:
  "js_lt (Fin a) (Fin b) = (a < b)"
  "js_gt (Fin a) (Fin b) = (b < a)"
  "js_ge (Fin a) (Fin b) = (b \<le> a)"
  by (auto simp: js_lt_def js_gt_def js_ge_def)

lemma js_cmp_NaN [simp]:
  "\<not> js_lt NaN b" "\<not> js_gt NaN b" "\<not> js_ge NaN b"
  "\<not> js_lt b NaN" "\<not> js_gt b NaN" "\<not> js_ge b NaN"
  by (cases b; simp add: js_lt_def js_gt_def js_ge_def)+

text \<open>An integer below \<open>2 ^ 53\<close> in magnitude is a double.\<close>

lemma round_half_even_of_int: "round_half_even (of_int j) = j"
  by (simp add: round_half_even_def)

lemma round_half_even_scaled: "round_half_even (of_int n * 2 ^ j) = n * 2 ^ j"
  using round_half_even_of_int [of "n * 2 ^ j"] by simp

lemma is_double_of_int:
  assumes "\<bar>n\<bar> < 2 ^ 53"
  shows "is_double (of_int n)"
proof (cases "n = 0")
  case True
  then show ?thesis
    by (simp add: is_double_def round_to_double_def)
next
  case False
  define k where "k = floorlog 2 (nat \<bar>n\<bar>)"
  have pos: "0 < nat \<bar>n\<bar>"
    using False by simp
  have "nat \<bar>n\<bar> < 2 ^ 53"
    using assms by (simp add: nat_less_iff)
  then have k53: "k \<le> 53"
    unfolding k_def by (intro floorlog_leI) simp_all
  have k1: "1 \<le> k"
    unfolding k_def using pos by (intro floorlog_geI) simp_all
  have "1 \<le> \<bar>n\<bar>"
    using False by simp
  then have one: "(1 :: rat) \<le> \<bar>of_int n\<bar>"
    by (simp only: of_int_1_le_iff flip: of_int_abs)
  have fl: "floor_log2 \<bar>of_int n\<bar> = int k - 1"
    using one by (simp add: floor_log2_def k_def flip: of_int_abs)
  define j where "j = 53 - k"
  have e: "max (floor_log2 \<bar>of_int n\<bar>) (- 1022) - 52 = - int j"
    using k53 k1 by (simp add: fl j_def)
  have ulp: "(2 :: rat) powi (max (floor_log2 \<bar>of_int n\<bar>) (- 1022) - 52) = 1 / 2 ^ j"
    unfolding e by (simp add: power_int_minus_divide)
  have lt: "max (floor_log2 \<bar>of_int n\<bar>) (- 1022) < 1023"
    using k53 by (simp add: fl)
  have "round_to_double (of_int n) = Fin (of_int n)"
    using False lt
    by (simp add: round_to_double_def Let_def ulp round_half_even_scaled)
  then show ?thesis
    by (simp add: is_double_def)
qed


lemma is_double_numeral [simp]:
  "(numeral w :: int) < 2 ^ 53 \<Longrightarrow> is_double (numeral w)"
  using is_double_of_int [of "numeral w"] by simp

lemma running_sums_int:
  "\<bar>z\<bar> + sum_list (map abs ns) < 2 ^ 53 \<Longrightarrow>
   list_all is_double (running_sums (of_int z) (map of_int ns))"
proof (induction ns arbitrary: z)
  case Nil
  then show ?case by simp
next
  case (Cons n ns)
  have "\<bar>z + n\<bar> \<le> \<bar>z\<bar> + \<bar>n\<bar>"
    by simp
  with Cons.prems have a: "\<bar>z + n\<bar> < 2 ^ 53" and b: "\<bar>z + n\<bar> + sum_list (map abs ns) < 2 ^ 53"
    using sum_list_abs [of ns] by simp_all
  from is_double_of_int [OF a] Cons.IH [OF b] show ?case
    by simp
qed

lemma floor_numeral_quotient:
  "\<lfloor>(numeral a / numeral b :: rat)\<rfloor> = numeral a div numeral b"
  using floor_divide_of_int_eq [of "numeral a" "numeral b", where ?'a = rat] by simp

subsection \<open>The error of a rounding\<close>

text \<open>Rounding to an integer moves a number by a half at most.\<close>

lemma round_half_even_error: "\<bar>of_int (round_half_even z) - z\<bar> \<le> 1 / 2"
proof -
  have "of_int \<lfloor>z\<rfloor> \<le> z" "z < of_int \<lfloor>z\<rfloor> + 1"
    by linarith+
  then show ?thesis
    by (auto simp: round_half_even_def Let_def)
qed

text \<open>
  \<open>floor_log2 x\<close> is the binary exponent of a positive \<open>x\<close>: the power of two of that
  exponent is at most \<open>x\<close>, and the next one is above it.
\<close>

lemma pow2_le_of_nat: "2 ^ j \<le> N \<Longrightarrow> (2 :: rat) ^ j \<le> of_nat N"
proof -
  assume "2 ^ j \<le> N"
  then have "(of_nat (2 ^ j) :: rat) \<le> of_nat N"
    by (simp only: of_nat_le_iff)
  then show ?thesis
    by (simp only: of_nat_power of_nat_numeral)
qed

lemma of_nat_succ_le_pow2: "N < 2 ^ j \<Longrightarrow> (of_nat N + 1 :: rat) \<le> 2 ^ j"
proof -
  assume "N < 2 ^ j"
  then have "Suc N \<le> 2 ^ j"
    by simp
  then have "(of_nat (Suc N) :: rat) \<le> of_nat (2 ^ j)"
    by (simp only: of_nat_le_iff)
  then show ?thesis
    by (simp only: of_nat_power of_nat_numeral of_nat_Suc add.commute)
qed

lemma floorlog2_bounds:
  assumes "0 < N"
  shows "1 \<le> floorlog 2 N" "2 ^ (floorlog 2 N - 1) \<le> N" "N < 2 ^ floorlog 2 N"
proof -
  from floorlog_bounds [of N 2] assms
  show b: "2 ^ (floorlog 2 N - 1) \<le> N" "N < 2 ^ floorlog 2 N"
    by simp_all
  show "1 \<le> floorlog 2 N"
  proof (rule ccontr)
    assume "\<not> 1 \<le> floorlog 2 N"
    then have "floorlog 2 N = 0" by simp
    with b(2) assms show False by simp
  qed
qed

lemma floor_log2_ge1:
  assumes "1 \<le> x"
  shows "2 powi (floor_log2 x) \<le> x \<and> x < 2 powi (floor_log2 x + 1)"
proof -
  define N where "N = nat \<lfloor>x\<rfloor>"
  define k where "k = floorlog 2 N"
  have fl1: "1 \<le> \<lfloor>x\<rfloor>"
    using assms by linarith
  then have N0: "0 < N"
    by (simp add: N_def)
  have N: "of_nat N = (of_int \<lfloor>x\<rfloor> :: rat)"
    using fl1 by (simp add: N_def)
  note b = floorlog2_bounds [OF N0, folded k_def]
  have e: "floor_log2 x = int (k - 1)"
  proof -
    have "floor_log2 x = int k - 1"
      using assms by (simp only: floor_log2_def if_True k_def N_def)
    then show ?thesis
      using b(1) by simp
  qed
  have e1: "floor_log2 x + 1 = int k"
    using e b(1) by simp
  have "(2 :: rat) ^ (k - 1) \<le> of_nat N"
    using b(2) by (rule pow2_le_of_nat)
  also have "\<dots> \<le> x"
    unfolding N by linarith
  finally have lo: "2 powi (floor_log2 x) \<le> x"
    unfolding e by (simp only: power_int_of_nat)
  have "x < of_nat N + 1"
    unfolding N by linarith
  also have "(of_nat N + 1 :: rat) \<le> 2 ^ k"
    using b(3) by (rule of_nat_succ_le_pow2)
  finally have hi: "x < 2 powi (floor_log2 x + 1)"
    unfolding e1 by (simp only: power_int_of_nat)
  from lo hi show ?thesis ..
qed

lemma floor_log2_lt1:
  assumes "0 < x" "x < 1"
  shows "2 powi (floor_log2 x) \<le> x \<and> x < 2 powi (floor_log2 x + 1)"
proof -
  define y where "y = 1 / x"
  define M where "M = nat (\<lceil>y\<rceil> - 1)"
  define k where "k = floorlog 2 M"
  have y0: "0 < y"
    using assms(1) by (simp add: y_def)
  have xy: "x * y = 1"
    using assms(1) by (simp add: y_def)
  have y1: "1 < y"
    using assms by (simp add: y_def)
  then have c2: "2 \<le> \<lceil>y\<rceil>"
    by linarith
  then have M0: "0 < M"
    by (simp add: M_def)
  have M: "of_nat M = (of_int \<lceil>y\<rceil> - 1 :: rat)"
    using c2 by (simp add: M_def)
  note b = floorlog2_bounds [OF M0, folded k_def]
  have nx: "\<not> 1 \<le> x"
    using assms(2) by simp
  have e: "floor_log2 x = - int k"
    using nx by (simp only: floor_log2_def if_False k_def M_def y_def)
  have e1: "floor_log2 x + 1 = - int (k - 1)"
    using e b(1) by simp
  have p0: "(0 :: rat) < 2 ^ k" "(0 :: rat) < 2 ^ (k - 1)"
    by simp_all
  have "y \<le> of_nat M + 1"
    unfolding M by linarith
  also have "(of_nat M + 1 :: rat) \<le> 2 ^ k"
    using b(3) by (rule of_nat_succ_le_pow2)
  finally have yk: "y \<le> 2 ^ k" .
  have "1 = x * y"
    using xy by simp
  also have "\<dots> \<le> x * 2 ^ k"
    using yk assms(1) by (rule mult_left_mono [OF _ less_imp_le])
  finally have "1 / 2 ^ k \<le> x"
    using p0(1) by (simp add: divide_le_eq)
  then have lo: "2 powi (floor_log2 x) \<le> x"
    unfolding e by (simp only: power_int_minus_divide power_int_of_nat)
  have "(2 :: rat) ^ (k - 1) \<le> of_nat M"
    using b(2) by (rule pow2_le_of_nat)
  also have "\<dots> < y"
    unfolding M by linarith
  finally have ky: "2 ^ (k - 1) < y" .
  have "x * 2 ^ (k - 1) < x * y"
    using ky assms(1) by (rule mult_strict_left_mono)
  then have "x * 2 ^ (k - 1) < 1"
    using xy by simp
  then have "x < 1 / 2 ^ (k - 1)"
    using p0(2) by (simp add: less_divide_eq)
  then have hi: "x < 2 powi (floor_log2 x + 1)"
    unfolding e1 by (simp only: power_int_minus_divide power_int_of_nat)
  from lo hi show ?thesis ..
qed

lemma floor_log2_bounds:
  assumes "0 < x"
  shows "2 powi (floor_log2 x) \<le> x" "x < 2 powi (floor_log2 x + 1)"
proof -
  have "2 powi (floor_log2 x) \<le> x \<and> x < 2 powi (floor_log2 x + 1)"
  proof (cases "1 \<le> x")
    case True
    then show ?thesis by (rule floor_log2_ge1)
  next
    case False
    then have "x < 1" by simp
    with assms show ?thesis by (rule floor_log2_lt1)
  qed
  then show "2 powi (floor_log2 x) \<le> x" "x < 2 powi (floor_log2 x + 1)"
    by blast+
qed

text \<open>
  In the range of the normal doubles, rounding to a double changes a number by at most
  its \<open>2 ^ 53\<close>-th part, and the result is finite.
\<close>

lemma pow2_int_less_cancel:
  assumes "(2 :: rat) powi a < 2 powi b"
  shows "a < b"
proof (rule ccontr)
  assume "\<not> a < b"
  then have "b \<le> a" by simp
  then have "(2 :: rat) powi b \<le> 2 powi a"
    by (rule power_int_increasing) simp
  with assms show False by simp
qed

lemma round_to_double_error:
  assumes lo: "2 powi (- 1022) \<le> \<bar>x\<bar>" and hi: "\<bar>x\<bar> < 2 powi 1023"
  shows "\<exists>y. round_to_double x = Fin y \<and> \<bar>y - x\<bar> \<le> \<bar>x\<bar> / 2 ^ 53"
proof -
  define e where "e = floor_log2 \<bar>x\<bar>"
  define ulp :: rat where "ulp = 2 powi (e - 52)"
  define y where "y = of_int (round_half_even (x / ulp)) * ulp"
  have "(0 :: rat) < 2 powi (- 1022)"
    by (rule zero_less_power_int) simp
  with lo have a0: "0 < \<bar>x\<bar>"
    by linarith
  then have x0: "x \<noteq> 0"
    by simp
  note b = floor_log2_bounds [OF a0, folded e_def]
  have "(2 :: rat) powi (- 1022) < 2 powi (e + 1)"
    using lo b(2) by linarith
  then have "- 1022 < e + 1"
    by (rule pow2_int_less_cancel)
  then have e_lo: "- 1022 \<le> e"
    by simp
  have "(2 :: rat) powi e < 2 powi 1023"
    using hi b(1) by linarith
  then have e_hi: "e < 1023"
    by (rule pow2_int_less_cancel)
  have m: "max e (- 1022) = e"
    using e_lo by simp
  have r: "round_to_double x = Fin y"
    using x0 e_hi
    by (simp only: round_to_double_def Let_def if_False if_True m y_def ulp_def flip: e_def)
  have u0: "0 < ulp"
    unfolding ulp_def by (rule zero_less_power_int) simp
  have "y - x = (of_int (round_half_even (x / ulp)) - x / ulp) * ulp"
    using u0 by (simp add: y_def algebra_simps)
  then have "\<bar>y - x\<bar> = \<bar>of_int (round_half_even (x / ulp)) - x / ulp\<bar> * ulp"
    using u0 by (simp add: abs_mult)
  also have "\<dots> \<le> 1 / 2 * ulp"
    using round_half_even_error [of "x / ulp"] u0 by (rule mult_right_mono [OF _ less_imp_le])
  also have "1 / 2 * ulp = 2 powi e / 2 ^ 53"
  proof -
    have "ulp = 2 powi e / 2 powi 52"
      unfolding ulp_def by (rule power_int_diff) simp
    then show ?thesis by simp
  qed
  also have "\<dots> \<le> \<bar>x\<bar> / 2 ^ 53"
    using b(1) by (simp add: divide_right_mono)
  finally have "\<bar>y - x\<bar> \<le> \<bar>x\<bar> / 2 ^ 53" .
  with r show ?thesis by blast
qed

lemma round_to_double_error_mid:
  assumes lo: "1 / 2 ^ 40 \<le> \<bar>x\<bar>" and hi: "\<bar>x\<bar> < 2 ^ 70"
  shows "\<exists>y. round_to_double x = Fin y \<and> \<bar>y - x\<bar> \<le> \<bar>x\<bar> / 2 ^ 53"
proof (rule round_to_double_error)
  have "(2 :: rat) powi (- 1022) \<le> 2 powi (- 40)"
    by (rule power_int_increasing) simp_all
  also have "(2 :: rat) powi (- 40) = 1 / 2 ^ 40"
    by (simp add: power_int_minus_divide)
  finally show "2 powi (- 1022) \<le> \<bar>x\<bar>"
    using lo by linarith
  have "(2 :: rat) powi 70 \<le> 2 powi 1023"
    by (rule power_int_increasing) simp_all
  moreover have "(2 :: rat) powi 70 = 2 ^ 70"
    by simp
  ultimately show "\<bar>x\<bar> < 2 powi 1023"
    using hi by linarith
qed

text \<open>Two roundings in a row change a number by at most its \<open>2 ^ 51\<close>-th part.\<close>

lemma abs_times_100: "\<bar>x * 100\<bar> = \<bar>x\<bar> * (100 :: rat)"
  by (simp only: abs_mult abs_numeral)

lemma abs_diff_times_100: "\<bar>x * 100 - y * 100\<bar> = \<bar>x - y\<bar> * (100 :: rat)"
  by (simp only: abs_mult abs_numeral flip: left_diff_distrib)

lemma size_after_rounding:
  fixes a b :: rat
  assumes "\<bar>b - a\<bar> \<le> \<bar>a\<bar> / 2 ^ 53"
  shows "\<bar>a\<bar> / 2 \<le> \<bar>b\<bar>" and "\<bar>b\<bar> \<le> 2 * \<bar>a\<bar>"
proof -
  define A where "A = \<bar>a\<bar>"
  define B where "B = \<bar>b\<bar>"
  define D where "D = \<bar>b - a\<bar>"
  have t: "B \<le> A + D" "A \<le> B + D"
    unfolding A_def B_def D_def by linarith+
  have n: "0 \<le> A"
    unfolding A_def by simp
  have h: "D \<le> A / 9007199254740992"
    using assms unfolding A_def D_def by simp
  have "A / 2 \<le> B" "B \<le> 2 * A"
    using t n h by linarith+
  then show "\<bar>a\<bar> / 2 \<le> \<bar>b\<bar>" and "\<bar>b\<bar> \<le> 2 * \<bar>a\<bar>"
    unfolding A_def B_def by simp_all
qed

lemma error_of_two_roundings:
  fixes a b c :: rat
  assumes "\<bar>b - a\<bar> \<le> \<bar>a\<bar> / 2 ^ 53" and "\<bar>c - b\<bar> \<le> \<bar>b\<bar> / 2 ^ 53"
  shows "\<bar>c - a\<bar> \<le> \<bar>a\<bar> / 2 ^ 51" and "\<bar>c\<bar> \<le> 4 * \<bar>a\<bar>"
proof -
  define A where "A = \<bar>a\<bar>"
  define B where "B = \<bar>b\<bar>"
  define C where "C = \<bar>c\<bar>"
  define D where "D = \<bar>b - a\<bar>"
  define E where "E = \<bar>c - b\<bar>"
  define F where "F = \<bar>c - a\<bar>"
  have t: "B \<le> A + D" "C \<le> B + E" "F \<le> E + D"
    unfolding A_def B_def C_def D_def E_def F_def by linarith+
  have n: "0 \<le> A" "0 \<le> B"
    unfolding A_def B_def by simp_all
  have h: "D \<le> A / 9007199254740992" "E \<le> B / 9007199254740992"
    using assms unfolding A_def B_def D_def E_def by simp_all
  have "F \<le> A / 2251799813685248" "C \<le> 4 * A"
    using t n h by linarith+
  then show "\<bar>c - a\<bar> \<le> \<bar>a\<bar> / 2 ^ 51" and "\<bar>c\<bar> \<le> 4 * \<bar>a\<bar>"
    unfolding A_def C_def F_def by simp_all
qed

lemma two_roundings:
  assumes lo: "1 / 2 ^ 32 \<le> \<bar>m\<bar>" and hi: "\<bar>m\<bar> < 2 ^ 53"
  shows "\<exists>p. js_mul (round_to_double m) (Fin 100) = Fin p \<and>
    \<bar>p - m * 100\<bar> \<le> \<bar>m * 100\<bar> / 2 ^ 51 \<and> \<bar>p\<bar> \<le> 4 * \<bar>m * 100\<bar>"
proof -
  have "\<exists>q. round_to_double m = Fin q \<and> \<bar>q - m\<bar> \<le> \<bar>m\<bar> / 2 ^ 53"
    by (rule round_to_double_error_mid) (use lo hi in simp_all)
  then obtain q where q: "round_to_double m = Fin q" "\<bar>q - m\<bar> \<le> \<bar>m\<bar> / 2 ^ 53"
    by blast
  from q(2) have "\<bar>q - m\<bar> * 100 \<le> \<bar>m\<bar> / 2 ^ 53 * 100"
    by (rule mult_right_mono) simp
  then have q': "\<bar>q * 100 - m * 100\<bar> \<le> \<bar>m * 100\<bar> / 2 ^ 53"
    by (simp only: abs_diff_times_100 abs_times_100 times_divide_eq_left)
  note s = size_after_rounding [OF q(2)]
  have "1 / 2 ^ 40 \<le> \<bar>m\<bar> / 2 * 100"
    using lo by simp
  also have "\<dots> \<le> \<bar>q * 100\<bar>"
    using s(1) unfolding abs_times_100 by simp
  finally have l2: "1 / 2 ^ 40 \<le> \<bar>q * 100\<bar>" .
  have "\<bar>q * 100\<bar> \<le> 2 * \<bar>m\<bar> * 100"
    using s(2) unfolding abs_times_100 by simp
  also have "\<dots> < 2 ^ 70"
    using hi by simp
  finally have h2: "\<bar>q * 100\<bar> < 2 ^ 70" .
  have "\<exists>p. round_to_double (q * 100) = Fin p \<and> \<bar>p - q * 100\<bar> \<le> \<bar>q * 100\<bar> / 2 ^ 53"
    using l2 h2 by (rule round_to_double_error_mid)
  then obtain p where p: "round_to_double (q * 100) = Fin p"
      "\<bar>p - q * 100\<bar> \<le> \<bar>q * 100\<bar> / 2 ^ 53"
    by blast
  have r: "js_mul (round_to_double m) (Fin 100) = Fin p"
    by (simp only: q(1) js_mul.simps p(1))
  note b = error_of_two_roundings [OF q' p(2)]
  from r b show ?thesis by blast
qed

text \<open>
  The mean of fewer than \<open>2 ^ 32\<close> integers whose sum is below \<open>2 ^ 53\<close> in absolute
  value is zero or in the range of the normal doubles, and so are 100 times its double
  and a hundredth of an integer of that size.
\<close>

lemma mean_of_ints_bounds:
  fixes S :: int and n :: nat
  assumes "S \<noteq> 0" and "\<bar>S\<bar> < 2 ^ 53" and "0 < n" and "n < 2 ^ 32"
  shows "1 / 2 ^ 32 \<le> \<bar>of_int S / of_nat n :: rat\<bar>" and "\<bar>of_int S / of_nat n :: rat\<bar> < 2 ^ 53"
proof -
  define A :: rat where "A = of_int \<bar>S\<bar>"
  define N :: rat where "N = of_nat n"
  have a: "\<bar>of_int S / of_nat n :: rat\<bar> = A / N"
    by (simp add: A_def N_def)
  have "1 \<le> \<bar>S\<bar>"
    using assms(1) by simp
  then have A1: "1 \<le> A"
    unfolding A_def by (simp only: of_int_1_le_iff)
  have "(of_int \<bar>S\<bar> :: rat) < of_int (2 ^ 53)"
    using assms(2) by (simp only: of_int_less_iff)
  then have A2: "A < 2 ^ 53"
    by (simp add: A_def)
  have "(of_nat 1 :: rat) \<le> of_nat n"
    using assms(3) by (simp only: of_nat_le_iff)
  then have N1: "1 \<le> N"
    by (simp add: N_def)
  have "(of_nat n :: rat) < of_nat (2 ^ 32)"
    using assms(4) by (simp only: of_nat_less_iff)
  then have N2: "N < 2 ^ 32"
    by (simp add: N_def)
  have N0: "0 < N"
    using N1 by simp
  have "1 * 2 ^ 32 \<le> A * 2 ^ 32"
    using A1 by (rule mult_right_mono) simp
  then have "N \<le> A * 2 ^ 32"
    using N2 by simp
  then have "1 / 2 ^ 32 \<le> A / N"
    using N0 by (simp add: le_divide_eq)
  then show "1 / 2 ^ 32 \<le> \<bar>of_int S / of_nat n :: rat\<bar>"
    by (simp only: a)
  have "A / N \<le> A"
    using N1 A1 by (simp add: divide_le_eq)
  with A2 have "A / N < 2 ^ 53"
    by simp
  then show "\<bar>of_int S / of_nat n :: rat\<bar> < 2 ^ 53"
    by (simp only: a)
qed

lemma mean_times_100_of_ints:
  fixes S :: int and n :: nat
  assumes "\<bar>S\<bar> < 2 ^ 53" and "0 < n" and "n < 2 ^ 32"
  shows "\<exists>p. js_mul (js_div (Fin (of_int S)) (Fin (of_nat n))) (Fin 100) = Fin p \<and>
    \<bar>p - of_int S / of_nat n * 100\<bar> \<le> \<bar>of_int S / of_nat n * 100\<bar> / 2 ^ 51 \<and>
    \<bar>p\<bar> < 2 ^ 62"
proof -
  define m :: rat where "m = of_int S / of_nat n"
  have n0: "(of_nat n :: rat) \<noteq> 0"
    using assms(2) by simp
  have d: "js_div (Fin (of_int S)) (Fin (of_nat n)) = round_to_double m"
    using n0 by (simp only: js_div.simps if_False m_def)
  have "\<exists>p. js_mul (round_to_double m) (Fin 100) = Fin p \<and>
      \<bar>p - m * 100\<bar> \<le> \<bar>m * 100\<bar> / 2 ^ 51 \<and> \<bar>p\<bar> \<le> 4 * \<bar>m * 100\<bar>"
  proof (cases "S = 0")
    case True
    then have "m = 0"
      by (simp add: m_def)
    moreover have "round_to_double 0 = Fin 0"
      by (simp add: round_to_double_def)
    ultimately have "js_mul (round_to_double m) (Fin 100) = Fin 0 \<and>
        \<bar>0 - m * 100\<bar> \<le> \<bar>m * 100\<bar> / 2 ^ 51 \<and> \<bar>0 :: rat\<bar> \<le> 4 * \<bar>m * 100\<bar>"
      by simp
    then show ?thesis ..
  next
    case False
    from mean_of_ints_bounds [OF False assms] show ?thesis
      unfolding m_def [symmetric] by (rule two_roundings)
  qed
  then obtain p where p: "js_mul (round_to_double m) (Fin 100) = Fin p"
      "\<bar>p - m * 100\<bar> \<le> \<bar>m * 100\<bar> / 2 ^ 51" "\<bar>p\<bar> \<le> 4 * \<bar>m * 100\<bar>"
    by blast
  have "\<bar>m\<bar> < 2 ^ 53"
  proof (cases "S = 0")
    case True
    then show ?thesis by (simp add: m_def)
  next
    case False
    from mean_of_ints_bounds(2) [OF False assms] show ?thesis
      by (simp only: m_def)
  qed
  then have "4 * \<bar>m * 100\<bar> < 2 ^ 62"
    unfolding abs_times_100 by simp
  with p(3) have "\<bar>p\<bar> < 2 ^ 62"
    by (rule le_less_trans)
  with p(1,2) show ?thesis
    unfolding d m_def by blast
qed

lemma round_hundredths:
  fixes p :: rat
  assumes "\<bar>p\<bar> < 2 ^ 62"
  shows "\<exists>r. round_to_double (of_int \<lfloor>p + 1 / 2\<rfloor> / 100) = Fin r \<and>
    \<bar>r - of_int \<lfloor>p + 1 / 2\<rfloor> / 100\<bar> \<le> \<bar>of_int \<lfloor>p + 1 / 2\<rfloor> / 100\<bar> / 2 ^ 53"
proof (cases "\<lfloor>p + 1 / 2\<rfloor> = 0")
  case True
  have "round_to_double 0 = Fin 0"
    by (simp add: round_to_double_def)
  then have "round_to_double (of_int \<lfloor>p + 1 / 2\<rfloor> / 100) = Fin 0 \<and>
    \<bar>0 - of_int \<lfloor>p + 1 / 2\<rfloor> / 100\<bar> \<le> \<bar>of_int \<lfloor>p + 1 / 2\<rfloor> / 100 :: rat\<bar> / 2 ^ 53"
    by (simp add: True)
  then show ?thesis ..
next
  case False
  define k where "k = \<lfloor>p + 1 / 2\<rfloor>"
  define K :: rat where "K = of_int \<bar>k\<bar>"
  have a: "\<bar>of_int k / 100 :: rat\<bar> = K / 100"
    by (simp add: K_def)
  have "1 \<le> \<bar>k\<bar>"
    using False by (simp add: k_def)
  then have K1: "1 \<le> K"
    unfolding K_def by (simp only: of_int_1_le_iff)
  have "of_int k \<le> p + 1 / 2" "p + 1 / 2 < of_int k + 1"
    unfolding k_def by linarith+
  then have "\<bar>of_int k :: rat\<bar> \<le> \<bar>p\<bar> + 1 / 2"
    by linarith
  then have K2: "K < 2 ^ 62 + 1 / 2"
    using assms by (simp add: K_def)
  have "1 / 2 ^ 40 \<le> \<bar>of_int k / 100 :: rat\<bar>"
    unfolding a using K1 by simp
  moreover have "\<bar>of_int k / 100 :: rat\<bar> < 2 ^ 70"
    unfolding a using K2 by simp
  ultimately show ?thesis
    unfolding k_def [symmetric] by (rule round_to_double_error_mid)
qed

lemma Math_round_error: "\<bar>of_int \<lfloor>p + 1 / 2\<rfloor> - p\<bar> \<le> (1 / 2 :: rat)"
proof -
  have "of_int \<lfloor>p + 1 / 2\<rfloor> \<le> p + 1 / 2" "p + 1 / 2 < of_int \<lfloor>p + 1 / 2\<rfloor> + 1"
    by linarith+
  then show ?thesis
    by linarith
qed

section \<open>Case conversion of ASCII strings\<close>

lemma ascii_upper_less: "c < 0x80 \<Longrightarrow> ascii_upper c < 0x80"
  unfolding ascii_upper_def by unat_arith

lemma ascii_lower_less: "c < 0x80 \<Longrightarrow> ascii_lower c < 0x80"
  unfolding ascii_lower_def by unat_arith

lemma ascii_upper_idem: "ascii_upper (ascii_upper c) = ascii_upper c"
  unfolding ascii_upper_def by unat_arith

lemma ascii_lower_idem: "ascii_lower (ascii_lower c) = ascii_lower c"
  unfolding ascii_lower_def by unat_arith

lemma sharp_s_upper_ascii: "c < 0x80 \<Longrightarrow> sharp_s_upper c = [ascii_upper c]"
  unfolding sharp_s_upper_def by auto

lemma sample_host_conformant: "ascii_conformant sample_host"
proof -
  have "is_ascii s \<Longrightarrow> concat (map sharp_s_upper s) = map ascii_upper s" for s
    by (induction s) (simp_all add: is_ascii_def sharp_s_upper_ascii)
  then show ?thesis
    by (simp add: ascii_conformant_def sample_host_def)
qed

lemma sample_host_upper_nonempty: "toUpperCase sample_host [c] \<noteq> []"
  by (simp add: sample_host_def sharp_s_upper_def)

section \<open>formatUserName\<close>

lemma formatUserName_Cons:
  "formatUserName h (JStr (c # cs)) = Inr (toUpperCase h [c] @ toLowerCase h cs)"
  by (simp add: charAt_def slice_def)

lemma formatUserName_error_iff:
  "formatUserName h v = Inl e \<longleftrightarrow>
     e = Error ''Name must be a non-empty string'' \<and> (typeof v \<noteq> ''string'' \<or> v = JStr [])"
  by (cases v) (auto simp: charAt_def slice_def)

lemma is_ascii_jOHN: "is_ascii (str ''jOHN'')"
  by (simp add: is_ascii_def str_def)

lemma formatUserName_examples:
  assumes "ascii_conformant h"
  shows "formatUserName h (JStr (str ''jOHN'')) = Inr (str ''John'')"
    and "formatUserName h (JStr (str ''j'')) = Inr (str ''J'')"
proof -
  have u: "toUpperCase h [0x6A] = [0x4A]"
    using assms by (simp add: ascii_conformant_def is_ascii_def ascii_upper_def)
  have l: "toLowerCase h [0x4F, 0x48, 0x4E] = [0x6F, 0x68, 0x6E]" "toLowerCase h [] = []"
    using assms by (simp_all add: ascii_conformant_def is_ascii_def ascii_lower_def)
  show "formatUserName h (JStr (str ''jOHN'')) = Inr (str ''John'')"
    using u l by (simp add: str_def charAt_def slice_def)
  show "formatUserName h (JStr (str ''j'')) = Inr (str ''J'')"
    using u l by (simp add: str_def charAt_def slice_def)
qed

lemma sample_host_john:
  "formatUserName sample_host (JStr (str ''john'')) = Inr (str ''John'')"
  "formatUserName sample_host (JStr (str ''jOHN'')) = Inr (str ''John'')"
  by (simp_all add: sample_host_def str_def charAt_def slice_def sharp_s_upper_def
      ascii_upper_def ascii_lower_def)

text \<open>
  C9. \<open>formatUserName\<close> fails, with the message \<^verbatim>\<open>Name must be a non-empty string\<close>
  and with no other, exactly when its argument is not a string or is the empty string.
  On a non-empty string it returns the upper case of the first character followed by
  the lower case of the rest, both as the host converts them; so \<^verbatim>\<open>jOHN\<close> gives
  \<^verbatim>\<open>John\<close> and \<^verbatim>\<open>j\<close> gives \<^verbatim>\<open>J\<close> on every host that converts ASCII letters as
  Unicode does.
\<close>

theorem formatUserName_spec:
  "(formatUserName h v = Inl (Error ''Name must be a non-empty string'') \<longleftrightarrow>
      typeof v \<noteq> ''string'' \<or> v = JStr []) \<and>
   (\<forall>e. formatUserName h v = Inl e \<longrightarrow> e = Error ''Name must be a non-empty string'') \<and>
   (\<forall>c cs. formatUserName h (JStr (c # cs)) = Inr (toUpperCase h [c] @ toLowerCase h cs)) \<and>
   (ascii_conformant h \<longrightarrow>
      formatUserName h (JStr (str ''jOHN'')) = Inr (str ''John'') \<and>
      formatUserName h (JStr (str ''j'')) = Inr (str ''J''))"
  using formatUserName_error_iff [of h v] formatUserName_Cons [of h]
    formatUserName_examples [of h]
  by blast

theorem formatUserName_spec_witness:
  "formatUserName sample_host (JNum (Fin 123)) = Inl (Error ''Name must be a non-empty string'') \<and>
   formatUserName sample_host (JStr (str ''jOHN'')) = Inr (str ''John'') \<and>
   formatUserName sample_host (JStr (str ''j'')) = Inr (str ''J'')"
  using formatUserName_spec [of sample_host "JNum (Fin 123)"] sample_host_conformant
  by simp

text \<open>
  C10, as it is stated, fails on the sharp s: \<^verbatim>\<open>formatUserName\<close> of the two characters
  U+00DF, \<^verbatim>\<open>a\<close> is \<^verbatim>\<open>SSa\<close>, and \<^verbatim>\<open>formatUserName\<close> of \<^verbatim>\<open>SSa\<close> is \<^verbatim>\<open>Ssa\<close>.
\<close>

theorem formatUserName_not_idempotent:
  "formatUserName sample_host (JStr [0xDF, 0x61]) = Inr (str ''SSa'') \<and>
   formatUserName sample_host (JStr (str ''SSa'')) = Inr (str ''Ssa'') \<and>
   formatUserName sample_host (JStr (str ''SSa'')) \<noteq> Inr (str ''SSa'')"
  by (simp add: sample_host_def str_def charAt_def slice_def sharp_s_upper_def ascii_upper_def
      ascii_lower_def)

text \<open>
  C10, amended. On a host whose upper case of a character is never the empty string,
  \<open>formatUserName\<close> of a non-empty string is a non-empty string, so a second
  application does not fail. On a non-empty string of ASCII characters the second
  application returns its argument: there \<open>formatUserName\<close> is idempotent.
\<close>

theorem formatUserName_idempotent_ascii:
  assumes "s \<noteq> []" and "\<forall>c. toUpperCase h [c] \<noteq> []"
  shows "\<exists>r. formatUserName h (JStr s) = Inr r \<and> r \<noteq> [] \<and>
           (\<exists>r'. formatUserName h (JStr r) = Inr r') \<and>
           (ascii_conformant h \<and> is_ascii s \<longrightarrow> formatUserName h (JStr r) = Inr r)"
proof -
  from assms(1) obtain c cs where s: "s = c # cs"
    by (cases s) auto
  let ?r = "toUpperCase h [c] @ toLowerCase h cs"
  have r: "formatUserName h (JStr s) = Inr ?r"
    by (simp only: s formatUserName_Cons)
  have ne: "?r \<noteq> []"
    using assms(2) by simp
  then obtain d ds where d: "?r = d # ds"
    by (cases ?r) auto
  have again: "\<exists>r'. formatUserName h (JStr ?r) = Inr r'"
    unfolding d formatUserName_Cons by blast
  have idem: "formatUserName h (JStr ?r) = Inr ?r" if h: "ascii_conformant h" and a: "is_ascii s"
  proof -
    have ac: "c < 0x80" and acs: "is_ascii cs"
      using a by (simp_all add: s is_ascii_def)
    have up: "toUpperCase h [c] = [ascii_upper c]"
      using h ac by (simp add: ascii_conformant_def is_ascii_def)
    have lo: "toLowerCase h cs = map ascii_lower cs"
      using h acs by (simp add: ascii_conformant_def)
    have "is_ascii [ascii_upper c]"
      using ac by (simp add: is_ascii_def ascii_upper_less)
    then have up2: "toUpperCase h [ascii_upper c] = [ascii_upper c]"
      using h by (simp add: ascii_conformant_def ascii_upper_idem)
    have "is_ascii (map ascii_lower cs)"
      using acs by (simp add: is_ascii_def list_all_iff ascii_lower_less)
    then have lo2: "toLowerCase h (map ascii_lower cs) = map ascii_lower cs"
      using h by (simp add: ascii_conformant_def ascii_lower_idem)
    show ?thesis
      by (simp add: up lo charAt_def slice_def up2 lo2)
  qed
  from r ne again idem show ?thesis by blast
qed

theorem formatUserName_idempotent_ascii_witness:
  "str ''jOHN'' \<noteq> [] \<and>
   formatUserName sample_host (JStr (str ''jOHN'')) = Inr (str ''John'') \<and>
   formatUserName sample_host (JStr (str ''John'')) = Inr (str ''John'')"
proof -
  have 1: "str ''jOHN'' \<noteq> []"
    by (simp add: str_def)
  have 2: "\<forall>c. toUpperCase sample_host [c] \<noteq> []"
    using sample_host_upper_nonempty by blast
  from formatUserName_idempotent_ascii [OF 1 2] sample_host_conformant is_ascii_jOHN
    sample_host_john(2)
  have "formatUserName sample_host (JStr (str ''John'')) = Inr (str ''John'')"
    by auto
  with 1 sample_host_john(2) show ?thesis by blast
qed

section \<open>filterUsersByAge\<close>

text \<open>
  C6. For an array \<open>users\<close> and a Number \<open>minAge\<close> that is at least 0,
  \<open>filterUsersByAge\<close> returns the elements of \<open>users\<close> whose age is at least
  \<open>minAge\<close>, each as often as it occurs and in the order of \<open>users\<close>. The argument is
  a value of the embedding and the result is built from it: nothing is written to it.
  Of the four users of ages 25, 17, 30 and 16 it keeps the first and the third for
  \<open>minAge\<close> 18, all for 0 and none for 100.
\<close>

theorem filterUsersByAge_selects:
  "(js_ge minAge (Fin 0) \<longrightarrow>
      (\<exists>r. filterUsersByAge (JArr users) (JNum minAge) = Inr r \<and>
         r = filter (\<lambda>u. js_ge (user.age u) minAge) users \<and>
         subseq r users \<and>
         (\<forall>u. u \<in> set r \<longleftrightarrow> u \<in> set users \<and> js_ge (user.age u) minAge))) \<and>
   filterUsersByAge (JArr example_users) (JNum (Fin 18)) =
     Inr [\<lparr>user.age = Fin 25\<rparr>, \<lparr>user.age = Fin 30\<rparr>] \<and>
   filterUsersByAge (JArr example_users) (JNum (Fin 0)) = Inr example_users \<and>
   filterUsersByAge (JArr example_users) (JNum (Fin 100)) = Inr []"
proof -
  have "filterUsersByAge (JArr users) (JNum minAge) =
      Inr (filter (\<lambda>u. js_ge (user.age u) minAge) users)" if "js_ge minAge (Fin 0)"
    using that by (simp add: js_ge_not_lt)
  moreover have "filterUsersByAge (JArr example_users) (JNum (Fin 18)) =
     Inr [\<lparr>user.age = Fin 25\<rparr>, \<lparr>user.age = Fin 30\<rparr>]"
    by (simp add: example_users_def)
  moreover have "filterUsersByAge (JArr example_users) (JNum (Fin 0)) = Inr example_users"
    by (simp add: example_users_def)
  moreover have "filterUsersByAge (JArr example_users) (JNum (Fin 100)) = Inr []"
    by (simp add: example_users_def)
  ultimately show ?thesis
    by auto
qed

theorem filterUsersByAge_selects_witness:
  "js_ge (Fin 18) (Fin 0) \<and>
   filterUsersByAge (JArr example_users) (JNum (Fin 18)) =
     Inr [\<lparr>user.age = Fin 25\<rparr>, \<lparr>user.age = Fin 30\<rparr>] \<and>
   subseq [\<lparr>user.age = Fin 25\<rparr>, \<lparr>user.age = Fin 30\<rparr>] example_users"
proof -
  have a: "js_ge (Fin 18) (Fin 0)"
    by simp
  with filterUsersByAge_selects [of "Fin 18" example_users]
  obtain r where r: "filterUsersByAge (JArr example_users) (JNum (Fin 18)) = Inr r"
      "subseq r example_users"
    by blast
  moreover have "filterUsersByAge (JArr example_users) (JNum (Fin 18)) =
     Inr [\<lparr>user.age = Fin 25\<rparr>, \<lparr>user.age = Fin 30\<rparr>]"
    by (simp add: example_users_def)
  ultimately show ?thesis
    using a by simp
qed

text \<open>
  C7, as it is stated, fails on \<open>NaN\<close>: it is a Number, it is not at least 0, and
  \<open>filterUsersByAge\<close> does not fail on it; it returns the empty list.
\<close>

theorem filterUsersByAge_accepts_NaN:
  "typeof (JNum NaN) = ''number'' \<and> \<not> js_ge NaN (Fin 0) \<and>
   filterUsersByAge (JArr example_users) (JNum NaN) = Inr []"
  by (simp add: example_users_def)

text \<open>
  C7, amended. For an array \<open>users\<close>, \<open>filterUsersByAge\<close> fails with the message
  \<^verbatim>\<open>MinAge must be a positive number\<close> exactly when \<open>minAge\<close> is not a Number or is a
  Number less than 0. It does not fail when \<open>minAge\<close> is a Number that is at least 0,
  and 0 is one.
\<close>

theorem filterUsersByAge_minAge_error:
  "(filterUsersByAge (JArr users) m = Inl (Error ''MinAge must be a positive number'') \<longleftrightarrow>
      typeof m \<noteq> ''number'' \<or> (\<exists>n. m = JNum n \<and> js_lt n (Fin 0))) \<and>
   (\<forall>n. m = JNum n \<and> js_ge n (Fin 0) \<longrightarrow> (\<exists>r. filterUsersByAge (JArr users) m = Inr r)) \<and>
   (\<exists>r. filterUsersByAge (JArr users) (JNum (Fin 0)) = Inr r)"
  by (cases m) (auto simp: js_ge_not_lt)

theorem filterUsersByAge_minAge_error_witness:
  "filterUsersByAge (JArr example_users) (JNum (Fin (- 1))) =
     Inl (Error ''MinAge must be a positive number'') \<and>
   filterUsersByAge (JArr example_users) (JStr (str ''18'')) =
     Inl (Error ''MinAge must be a positive number'') \<and>
   (\<exists>r. filterUsersByAge (JArr example_users) (JNum (Fin 18)) = Inr r)"
  using filterUsersByAge_minAge_error [of example_users "JNum (Fin (- 1))"]
    filterUsersByAge_minAge_error [of example_users "JStr (str ''18'')"]
    filterUsersByAge_minAge_error [of example_users "JNum (Fin 18)"]
  by simp

section \<open>calculateAverageAge\<close>

text \<open>Where no addition rounds, the total is the sum of the ages.\<close>

lemma totalAge_exact:
  "map user.age users = map Fin qs \<Longrightarrow> list_all is_double (running_sums z qs) \<Longrightarrow>
   foldl (\<lambda>sum user. js_add sum (user.age user)) (Fin z) users = Fin (z + sum_list qs)"
proof (induction users arbitrary: z qs)
  case Nil
  then show ?case by simp
next
  case (Cons u users)
  from Cons.prems(1) obtain q qs' where q: "qs = q # qs'" "user.age u = Fin q"
      "map user.age users = map Fin qs'"
    by (cases qs) auto
  from Cons.prems(2) q(1) have a: "round_to_double (z + q) = Fin (z + q)"
    by (simp add: is_double_def)
  from Cons.prems(2) q(1) have b: "list_all is_double (running_sums (z + q) qs')"
    by simp
  from Cons.IH [OF q(3) b] q a show ?case
    by (simp add: add.assoc)
qed

lemma calculateAverageAge_unfold:
  "users \<noteq> [] \<Longrightarrow>
   calculateAverageAge (JArr users) =
     Inr (js_div (Math_round (js_mul
       (js_div (foldl (\<lambda>sum user. js_add sum (user.age user)) (Fin 0) users)
          (Fin (of_nat (length users)))) (Fin 100))) (Fin 100))"
  by (simp only: calculateAverageAge.simps length_0_conv if_False Let_def)

lemma js_div_exact:
  "b \<noteq> 0 \<Longrightarrow> is_double (a / b) \<Longrightarrow> js_div (Fin a) (Fin b) = Fin (a / b)"
  by (simp only: js_div.simps is_double_def if_False)

lemma js_mul_exact:
  "is_double (a * b) \<Longrightarrow> js_mul (Fin a) (Fin b) = Fin (a * b)"
  by (simp only: js_mul.simps is_double_def)

lemma calculateAverageAge_exact:
  assumes "users \<noteq> []" and "map user.age users = map Fin qs"
    and "list_all is_double (running_sums 0 qs)"
    and "is_double (sum_list qs / of_nat (length qs))"
    and "is_double (sum_list qs / of_nat (length qs) * 100)"
  shows "calculateAverageAge (JArr users) =
    Inr (round_to_double
      (of_int \<lfloor>sum_list qs / of_nat (length qs) * 100 + 1 / 2\<rfloor> / 100))"
proof -
  have n: "length users = length qs"
    using assms(2) by (metis length_map)
  have ne: "(of_nat (length qs) :: rat) \<noteq> 0"
    using assms(1) n by (cases users) auto
  have t: "foldl (\<lambda>sum user. js_add sum (user.age user)) (Fin 0) users = Fin (sum_list qs)"
    using totalAge_exact [OF assms(2,3)] by (simp only: add_0)
  have h: "(100 :: rat) \<noteq> 0"
    by simp
  show ?thesis
    unfolding calculateAverageAge_unfold [OF assms(1)] t n
    unfolding js_div_exact [OF ne assms(4)]
    unfolding js_mul_exact [OF assms(5)]
    by (simp only: Math_round.simps js_div.simps h if_False)
qed

text \<open>The result in terms of the sum and the mean in doubles.\<close>

lemma totalAge_double_sum:
  "foldl (\<lambda>sum user. js_add sum (user.age user)) (Fin 0) users = double_sum (map user.age users)"
  by (simp add: double_sum_def foldl_map)

lemma calculateAverageAge_general:
  assumes "users \<noteq> []"
  shows "calculateAverageAge (JArr users) =
     Inr (js_div (Math_round (double_mean_times_100 (map user.age users))) (Fin 100))"
  unfolding calculateAverageAge_unfold [OF assms] totalAge_double_sum double_mean_times_100_def
    length_map ..

lemma round_then_divide:
  "js_div (Math_round (Fin p)) (Fin 100) = round_to_double (of_int \<lfloor>p + 1 / 2\<rfloor> / 100)"
  by simp

lemma round_half_away_nonneg:
  "0 \<le> p \<Longrightarrow> round_half_away_from_zero p = of_int \<lfloor>p + 1 / 2\<rfloor>"
  by (simp add: round_half_away_from_zero_def)

lemma double_sum_exact:
  assumes "ages = map Fin qs" and "list_all is_double (running_sums 0 qs)"
  shows "double_sum ages = Fin (sum_list qs)"
proof -
  have "foldl js_add (Fin z) (map Fin qs) = Fin (z + sum_list qs)"
    if "list_all is_double (running_sums z qs)" for z
    using that
  proof (induction qs arbitrary: z)
    case Nil
    then show ?case by simp
  next
    case (Cons q qs)
    from Cons.prems have "round_to_double (z + q) = Fin (z + q)"
      by (simp add: is_double_def)
    moreover from Cons.prems have "list_all is_double (running_sums (z + q) qs)"
      by simp
    ultimately have "round_to_double (z + q) = Fin (z + q)"
      and "list_all is_double (running_sums (z + q) qs)"
      by blast+
    with Cons.IH [of "z + q"] show ?case
      by (simp add: add.assoc)
  qed
  from this [OF assms(2)] show ?thesis
    by (simp add: double_sum_def assms(1))
qed

lemma sum_list_of_int: "sum_list (map of_int ns) = (of_int (sum_list ns) :: rat)"
  by (induction ns) simp_all

lemma double_sum_int:
  assumes "ages = map (\<lambda>n. Fin (of_int n)) ns" and "sum_list (map abs ns) < 2 ^ 53"
  shows "double_sum ages = Fin (of_int (sum_list ns))"
proof -
  have "ages = map Fin (map of_int ns)"
    by (simp add: assms(1))
  moreover have "list_all is_double (running_sums (of_int 0) (map of_int ns))"
    by (rule running_sums_int) (use assms(2) in simp)
  ultimately have "double_sum ages = Fin (sum_list (map of_int ns))"
    using double_sum_exact [of ages "map of_int ns"] by simp
  then show ?thesis
    by (simp only: sum_list_of_int)
qed

lemma double_mean_times_100_exact:
  assumes "ages \<noteq> []" and "ages = map Fin qs"
    and "list_all is_double (running_sums 0 qs)"
    and "is_double (sum_list qs / of_nat (length qs))"
    and "is_double (sum_list qs / of_nat (length qs) * 100)"
  shows "double_mean_times_100 ages = Fin (sum_list qs / of_nat (length qs) * 100)"
proof -
  have n: "length ages = length qs"
    by (simp add: assms(2))
  have ne: "(of_nat (length qs) :: rat) \<noteq> 0"
    using assms(1,2) by simp
  show ?thesis
    unfolding double_mean_times_100_def double_sum_exact [OF assms(2,3)] n
    unfolding js_div_exact [OF ne assms(4)]
    by (rule js_mul_exact [OF assms(5)])
qed

text \<open>
  Integer ages whose absolute values sum to less than \<open>2 ^ 53\<close>, of fewer than \<open>2 ^ 32\<close>
  users: the result is finite, and it is the double nearest to a whole number of
  hundredths that is within a half, and the \<open>2 ^ 51\<close>-th part of the mean times 100,
  of the mean times 100.
\<close>

lemma calculateAverageAge_of_ints:
  assumes "users \<noteq> []" and "map user.age users = map (\<lambda>n. Fin (of_int n)) ns"
    and "sum_list (map abs ns) < 2 ^ 53" and "length users < 2 ^ 32"
  shows "\<exists>k r. calculateAverageAge (JArr users) = Inr (Fin r) \<and>
    round_to_double (of_int k / 100) = Fin r \<and>
    \<bar>of_int k - of_int (sum_list ns) / of_nat (length ns) * 100 :: rat\<bar> \<le>
      1 / 2 + \<bar>of_int (sum_list ns) / of_nat (length ns) * 100\<bar> / 2 ^ 51 \<and>
    \<bar>r - of_int k / 100\<bar> \<le> \<bar>of_int k / 100\<bar> / 2 ^ 53"
proof -
  define S where "S = sum_list ns"
  define n where "n = length ns"
  have n: "length users = n"
    using assms(2) unfolding n_def by (metis length_map)
  have "\<bar>S\<bar> \<le> sum_list (map abs ns)"
    unfolding S_def by (rule sum_list_abs)
  with assms(3) have S: "\<bar>S\<bar> < 2 ^ 53"
    by simp
  have n0: "0 < n"
    using assms(1) n by (cases users) auto
  have n1: "n < 2 ^ 32"
    using assms(4) n by simp
  from mean_times_100_of_ints [OF S n0 n1]
  obtain p where p: "js_mul (js_div (Fin (of_int S)) (Fin (of_nat n))) (Fin 100) = Fin p"
      "\<bar>p - of_int S / of_nat n * 100\<bar> \<le> \<bar>of_int S / of_nat n * 100\<bar> / 2 ^ 51"
      "\<bar>p\<bar> < 2 ^ 62"
    by blast
  have "double_mean_times_100 (map user.age users) = Fin p"
    unfolding double_mean_times_100_def double_sum_int [OF assms(2,3)] length_map n
    unfolding S_def [symmetric] by (rule p(1))
  then have c: "calculateAverageAge (JArr users) =
      Inr (round_to_double (of_int \<lfloor>p + 1 / 2\<rfloor> / 100))"
    unfolding calculateAverageAge_general [OF assms(1)] by (simp only: round_then_divide)
  from round_hundredths [OF p(3)]
  obtain r where r: "round_to_double (of_int \<lfloor>p + 1 / 2\<rfloor> / 100) = Fin r"
      "\<bar>r - of_int \<lfloor>p + 1 / 2\<rfloor> / 100\<bar> \<le> \<bar>of_int \<lfloor>p + 1 / 2\<rfloor> / 100\<bar> / 2 ^ 53"
    by blast
  have "\<bar>of_int \<lfloor>p + 1 / 2\<rfloor> - of_int S / of_nat n * 100 :: rat\<bar> \<le>
      1 / 2 + \<bar>of_int S / of_nat n * 100\<bar> / 2 ^ 51"
    using Math_round_error [of p] p(2) by linarith
  with c r show ?thesis
    unfolding S_def n_def by (metis (no_types, lifting))
qed

text \<open>The steps of the example of ages 1, 2 and 2.\<close>

lemma users_1_2_2_steps:
  "double_mean_times_100 (map user.age users_1_2_2) = Fin (2932031007402667 / 17592186044416)"
  "(0 :: rat) \<le> 2932031007402667 / 17592186044416"
  "\<lfloor>(2932031007402667 / 17592186044416 :: rat) + 1 / 2\<rfloor> = 167"
  by code_simp+


text \<open>The roundings of the examples.\<close>

lemma example_doubles:
  "is_double (1 / 8)" "is_double (25 / 2)" "is_double (- 1 / 8)" "is_double (- 25 / 2)"
  unfolding is_double_def by code_simp+

lemma example_roundings:
  "round_to_double 30 = Fin 30"
  "round_to_double (- 12 / 100) \<noteq> round_to_double (- 13 / 100)"
  "round_to_double (2002 / 100) \<noteq> round_to_double (2003 / 100)"
  by code_simp+

lemma forty_users_total:
  "foldl (\<lambda>sum user. js_add sum (user.age user)) (Fin 0) forty_users = Fin 801"
proof -
  have "map user.age forty_users = map Fin (map of_int (replicate 39 20 @ [21]))"
    by (simp add: forty_users_def)
  moreover have "list_all is_double (running_sums (of_int 0) (map of_int (replicate 39 20 @ [21])))"
    by (rule running_sums_int) (simp add: sum_list_replicate)
  ultimately have "foldl (\<lambda>sum user. js_add sum (user.age user)) (Fin (of_int 0)) forty_users =
      Fin (of_int 0 + sum_list (map of_int (replicate 39 20 @ [21])))"
    by (rule totalAge_exact)
  then show ?thesis
    by (simp add: sum_list_replicate)
qed

lemma forty_users_steps:
  "js_div (Fin 801) (Fin (of_nat 40)) = Fin (2818268204315443 / 140737488355328)"
  "js_mul (Fin (2818268204315443 / 140737488355328)) (Fin 100) =
     Fin (8807088138485759 / 4398046511104)"
  "Math_round (Fin (8807088138485759 / 4398046511104)) = Fin (of_int 2002)"
  "js_div (Fin (of_int 2002)) (Fin 100) = round_to_double (2002 / 100)"
  by code_simp+

lemma forty_users_average:
  "calculateAverageAge (JArr forty_users) = Inr (round_to_double (2002 / 100))"
proof -
  have ne: "forty_users \<noteq> []" and n: "length forty_users = 40"
    by (simp_all add: forty_users_def)
  show ?thesis
    unfolding calculateAverageAge_unfold [OF ne] forty_users_total n
    by (simp only: forty_users_steps)
qed

lemma eighth_average:
  "calculateAverageAge (JArr [\<lparr>user.age = Fin (- 1 / 8)\<rparr>]) = Inr (round_to_double (- 12 / 100))"
    (is "?a = _")
  "calculateAverageAge (JArr [\<lparr>user.age = Fin (1 / 8)\<rparr>]) = Inr (round_to_double (13 / 100))"
    (is "?b = _")
proof -
  have "?a = Inr (round_to_double (of_int
      \<lfloor>sum_list [- 1 / 8 :: rat] / of_nat (length [- 1 / 8 :: rat]) * 100 + 1 / 2\<rfloor> / 100))"
    by (rule calculateAverageAge_exact) (use example_doubles in simp_all)
  then show "?a = Inr (round_to_double (- 12 / 100))"
    by simp
  have "?b = Inr (round_to_double (of_int
      \<lfloor>sum_list [1 / 8 :: rat] / of_nat (length [1 / 8 :: rat]) * 100 + 1 / 2\<rfloor> / 100))"
    by (rule calculateAverageAge_exact) (use example_doubles in simp_all)
  then show "?b = Inr (round_to_double (13 / 100))"
    by simp
qed

lemma twenty_thirty_forty_average:
  "calculateAverageAge (JArr [\<lparr>user.age = Fin 20\<rparr>, \<lparr>user.age = Fin 30\<rparr>, \<lparr>user.age = Fin 40\<rparr>]) =
     Inr (Fin 30)" (is "?a = _")
proof -
  have "?a = Inr (round_to_double (of_int
      \<lfloor>sum_list [20, 30, 40 :: rat] / of_nat (length [20, 30, 40 :: rat]) * 100 + 1 / 2\<rfloor> / 100))"
    by (rule calculateAverageAge_exact) simp_all
  then show ?thesis
    by (simp add: floor_numeral_quotient example_roundings)
qed

lemma users_20_21_22_average:
  "calculateAverageAge (JArr users_20_21_22) = Inr (Fin 21)"
proof -
  have "calculateAverageAge (JArr users_20_21_22) = Inr (round_to_double (of_int
      \<lfloor>sum_list [20, 21, 22 :: rat] / of_nat (length [20, 21, 22 :: rat]) * 100 + 1 / 2\<rfloor> / 100))"
    unfolding users_20_21_22_def by (rule calculateAverageAge_exact) simp_all
  moreover have "round_to_double 21 = Fin 21"
    by code_simp
  ultimately show ?thesis
    by (simp add: floor_numeral_quotient)
qed

lemma users_1_2_2_average:
  "calculateAverageAge (JArr users_1_2_2) = Inr (round_to_double (167 / 100))"
proof -
  have "users_1_2_2 \<noteq> []"
    by (simp add: users_1_2_2_def)
  from calculateAverageAge_general [OF this] show ?thesis
    unfolding users_1_2_2_steps(1) round_then_divide users_1_2_2_steps(3) by simp
qed

text \<open>
  C5, as it is stated, fails in two ways. A negative half does not go away from zero:
  for one user of age \<open>- 1 / 8\<close> the result is the double of \<open>- 12 / 100\<close>, not that
  of \<open>- 13 / 100\<close>. And the mean times 100 is rounded before \<^verbatim>\<open>Math.round\<close> sees it:
  for thirty-nine users of age 20 and one of age 21 the mean is \<open>801 / 40\<close>, a
  hundredth and a half above 20; its double times 100 is a double below two thousand
  and two and a half, and the result is the double of \<open>2002 / 100\<close>, not that of
  \<open>2003 / 100\<close>.
\<close>

theorem calculateAverageAge_not_half_away:
  "calculateAverageAge (JArr [\<lparr>user.age = Fin (- 1 / 8)\<rparr>]) = Inr (round_to_double (- 12 / 100)) \<and>
   round_half_away_from_zero (- 1 / 8 / 1 * 100) / 100 = - 13 / 100 \<and>
   round_to_double (- 12 / 100) \<noteq> round_to_double (- 13 / 100) \<and>
   calculateAverageAge (JArr forty_users) = Inr (round_to_double (2002 / 100)) \<and>
   round_half_away_from_zero (801 / 40 * 100) / 100 = 2003 / 100 \<and>
   round_to_double (2002 / 100) \<noteq> round_to_double (2003 / 100)"
proof -
  have "round_half_away_from_zero (- 1 / 8 / 1 * 100) / 100 = - 13 / 100"
    by (simp add: round_half_away_from_zero_def)
  moreover have "round_half_away_from_zero (801 / 40 * 100) / 100 = 2003 / 100"
    by (simp add: round_half_away_from_zero_def)
  ultimately show ?thesis
    using eighth_average(1) forty_users_average example_roundings(2,3) by blast
qed

text \<open>
  C5, amended. \<open>calculateAverageAge\<close> fails with the message
  \<^verbatim>\<open>Users must be a non-empty array\<close> exactly when its argument is not an array or is
  the empty array. For every non-empty array it returns \<^verbatim>\<open>Math.round\<close> of 100 times the
  mean, over 100, all in doubles: the ages are added from the left, the sum is divided
  by the count and the quotient multiplied by 100, each result rounded to a double.
  When that product is the finite \<open>p\<close>, the result is the double nearest to \<open>p\<close> plus a
  half, rounded down, over 100: half a hundredth of \<open>p\<close> goes towards plus infinity,
  which is away from zero when \<open>p\<close> is not negative. The sum of integer ages below
  \<open>2 ^ 53\<close> in total is exact. When the sums, the mean and the mean times 100 are
  doubles, \<open>p\<close> is the mean times 100 and the result is the double nearest to the mean
  rounded so to hundredths. For integer ages below \<open>2 ^ 53\<close> in total, of fewer than
  \<open>2 ^ 32\<close> users, the result is a finite double \<open>r\<close>, the nearest to \<open>k\<close> hundredths
  for an integer \<open>k\<close> that differs from the mean times 100 by at most a half and the
  \<open>2 ^ 51\<close>-th part of the mean times 100, and \<open>r\<close> differs from \<open>k\<close> hundredths by at
  most its \<open>2 ^ 53\<close>-th part. The ages 20, 30 and 40 give 30, the ages 20, 21 and 22
  give 21, and the ages 1, 2 and 2 give the double of 1.67.
\<close>

theorem calculateAverageAge_half_up:
  "(calculateAverageAge v = Inl (Error ''Users must be a non-empty array'') \<longleftrightarrow>
      \<not> isArray v \<or> v = JArr []) \<and>
   (users \<noteq> [] \<longrightarrow>
      calculateAverageAge (JArr users) =
        Inr (js_div (Math_round (double_mean_times_100 (map user.age users))) (Fin 100)) \<and>
      (double_mean_times_100 (map user.age users) = Fin p \<longrightarrow>
         calculateAverageAge (JArr users) = Inr (round_to_double (of_int \<lfloor>p + 1 / 2\<rfloor> / 100)) \<and>
         (0 \<le> p \<longrightarrow>
            calculateAverageAge (JArr users) =
              Inr (round_to_double (round_half_away_from_zero p / 100)))) \<and>
      (map user.age users = map (\<lambda>n. Fin (of_int n)) ns \<and> sum_list (map abs ns) < 2 ^ 53 \<longrightarrow>
         double_sum (map user.age users) = Fin (of_int (sum_list ns))) \<and>
      (map user.age users = map Fin qs \<and> list_all is_double (running_sums 0 qs) \<and>
       is_double (sum_list qs / of_nat (length qs)) \<and>
       is_double (sum_list qs / of_nat (length qs) * 100) \<longrightarrow>
         double_mean_times_100 (map user.age users) = Fin (sum_list qs / of_nat (length qs) * 100) \<and>
         calculateAverageAge (JArr users) =
           Inr (round_to_double
             (of_int \<lfloor>sum_list qs / of_nat (length qs) * 100 + 1 / 2\<rfloor> / 100)) \<and>
         (0 \<le> sum_list qs \<longrightarrow>
            calculateAverageAge (JArr users) =
              Inr (round_to_double
                (round_half_away_from_zero (sum_list qs / of_nat (length qs) * 100) / 100))))) \<and>
   (users \<noteq> [] \<and> map user.age users = map (\<lambda>n. Fin (of_int n)) ns \<and>
    sum_list (map abs ns) < 2 ^ 53 \<and> length users < 2 ^ 32 \<longrightarrow>
      (\<exists>k r. calculateAverageAge (JArr users) = Inr (Fin r) \<and>
         round_to_double (of_int k / 100) = Fin r \<and>
         \<bar>of_int k - of_int (sum_list ns) / of_nat (length ns) * 100 :: rat\<bar> \<le>
           1 / 2 + \<bar>of_int (sum_list ns) / of_nat (length ns) * 100\<bar> / 2 ^ 51 \<and>
         \<bar>r - of_int k / 100\<bar> \<le> \<bar>of_int k / 100\<bar> / 2 ^ 53)) \<and>
   calculateAverageAge (JArr [\<lparr>user.age = Fin 20\<rparr>, \<lparr>user.age = Fin 30\<rparr>, \<lparr>user.age = Fin 40\<rparr>]) =
     Inr (Fin 30) \<and>
   calculateAverageAge (JArr users_20_21_22) = Inr (Fin 21) \<and>
   calculateAverageAge (JArr users_1_2_2) = Inr (round_to_double (167 / 100))"
proof -
  have 1: "calculateAverageAge v = Inl (Error ''Users must be a non-empty array'') \<longleftrightarrow>
      \<not> isArray v \<or> v = JArr []"
    by (cases v) (simp_all add: Let_def)
  have 2: "calculateAverageAge (JArr users) =
      Inr (js_div (Math_round (double_mean_times_100 (map user.age users))) (Fin 100))"
    if "users \<noteq> []"
    using that by (rule calculateAverageAge_general)
  have 3: "calculateAverageAge (JArr users) = Inr (round_to_double (of_int \<lfloor>p + 1 / 2\<rfloor> / 100))"
    if "users \<noteq> []" "double_mean_times_100 (map user.age users) = Fin p"
    unfolding 2 [OF that(1)] that(2) round_then_divide ..
  have 4: "calculateAverageAge (JArr users) =
      Inr (round_to_double (round_half_away_from_zero p / 100))"
    if "users \<noteq> []" "double_mean_times_100 (map user.age users) = Fin p" "0 \<le> p"
    unfolding 3 [OF that(1,2)] round_half_away_nonneg [OF that(3)] ..
  have 5: "double_sum (map user.age users) = Fin (of_int (sum_list ns))"
    if "map user.age users = map (\<lambda>n. Fin (of_int n)) ns" "sum_list (map abs ns) < 2 ^ 53"
    using that by (rule double_sum_int)
  have 6: "double_mean_times_100 (map user.age users) =
      Fin (sum_list qs / of_nat (length qs) * 100)"
    if "users \<noteq> []" "map user.age users = map Fin qs" "list_all is_double (running_sums 0 qs)"
      "is_double (sum_list qs / of_nat (length qs))"
      "is_double (sum_list qs / of_nat (length qs) * 100)"
  proof -
    have "map user.age users \<noteq> []"
      using that(1) by simp
    then show ?thesis
      using that(2-5) by (rule double_mean_times_100_exact)
  qed
  have 7: "calculateAverageAge (JArr users) =
      Inr (round_to_double (of_int \<lfloor>sum_list qs / of_nat (length qs) * 100 + 1 / 2\<rfloor> / 100))"
    if "users \<noteq> []" "map user.age users = map Fin qs" "list_all is_double (running_sums 0 qs)"
      "is_double (sum_list qs / of_nat (length qs))"
      "is_double (sum_list qs / of_nat (length qs) * 100)"
    using that by (rule calculateAverageAge_exact)
  have 8: "round_half_away_from_zero (sum_list qs / of_nat (length qs) * 100) =
      of_int \<lfloor>sum_list qs / of_nat (length qs) * 100 + 1 / 2\<rfloor>" if "0 \<le> sum_list qs"
    using that by (simp add: round_half_away_from_zero_def)
  have A: "users \<noteq> [] \<longrightarrow>
      calculateAverageAge (JArr users) =
        Inr (js_div (Math_round (double_mean_times_100 (map user.age users))) (Fin 100)) \<and>
      (double_mean_times_100 (map user.age users) = Fin p \<longrightarrow>
         calculateAverageAge (JArr users) = Inr (round_to_double (of_int \<lfloor>p + 1 / 2\<rfloor> / 100)) \<and>
         (0 \<le> p \<longrightarrow>
            calculateAverageAge (JArr users) =
              Inr (round_to_double (round_half_away_from_zero p / 100)))) \<and>
      (map user.age users = map (\<lambda>n. Fin (of_int n)) ns \<and> sum_list (map abs ns) < 2 ^ 53 \<longrightarrow>
         double_sum (map user.age users) = Fin (of_int (sum_list ns))) \<and>
      (map user.age users = map Fin qs \<and> list_all is_double (running_sums 0 qs) \<and>
       is_double (sum_list qs / of_nat (length qs)) \<and>
       is_double (sum_list qs / of_nat (length qs) * 100) \<longrightarrow>
         double_mean_times_100 (map user.age users) = Fin (sum_list qs / of_nat (length qs) * 100) \<and>
         calculateAverageAge (JArr users) =
           Inr (round_to_double
             (of_int \<lfloor>sum_list qs / of_nat (length qs) * 100 + 1 / 2\<rfloor> / 100)) \<and>
         (0 \<le> sum_list qs \<longrightarrow>
            calculateAverageAge (JArr users) =
              Inr (round_to_double
                (round_half_away_from_zero (sum_list qs / of_nat (length qs) * 100) / 100))))"
    using 2 3 4 5 6 7 8 by (metis (no_types, lifting))
  have B: "users \<noteq> [] \<and> map user.age users = map (\<lambda>n. Fin (of_int n)) ns \<and>
      sum_list (map abs ns) < 2 ^ 53 \<and> length users < 2 ^ 32 \<longrightarrow>
      (\<exists>k r. calculateAverageAge (JArr users) = Inr (Fin r) \<and>
         round_to_double (of_int k / 100) = Fin r \<and>
         \<bar>of_int k - of_int (sum_list ns) / of_nat (length ns) * 100 :: rat\<bar> \<le>
           1 / 2 + \<bar>of_int (sum_list ns) / of_nat (length ns) * 100\<bar> / 2 ^ 51 \<and>
         \<bar>r - of_int k / 100\<bar> \<le> \<bar>of_int k / 100\<bar> / 2 ^ 53)"
  proof
    assume h: "users \<noteq> [] \<and> map user.age users = map (\<lambda>n. Fin (of_int n)) ns \<and>
      sum_list (map abs ns) < 2 ^ 53 \<and> length users < 2 ^ 32"
    then have "users \<noteq> []" "map user.age users = map (\<lambda>n. Fin (of_int n)) ns"
      "sum_list (map abs ns) < 2 ^ 53" "length users < 2 ^ 32"
      by blast+
    then show "\<exists>k r. calculateAverageAge (JArr users) = Inr (Fin r) \<and>
         round_to_double (of_int k / 100) = Fin r \<and>
         \<bar>of_int k - of_int (sum_list ns) / of_nat (length ns) * 100 :: rat\<bar> \<le>
           1 / 2 + \<bar>of_int (sum_list ns) / of_nat (length ns) * 100\<bar> / 2 ^ 51 \<and>
         \<bar>r - of_int k / 100\<bar> \<le> \<bar>of_int k / 100\<bar> / 2 ^ 53"
      by (rule calculateAverageAge_of_ints)
  qed
  note C = twenty_thirty_forty_average users_20_21_22_average users_1_2_2_average
  show ?thesis
    by (intro conjI) (rule 1 A B C)+
qed

theorem calculateAverageAge_half_up_witness:
  "users_1_2_2 \<noteq> [] \<and>
   double_mean_times_100 (map user.age users_1_2_2) = Fin (2932031007402667 / 17592186044416) \<and>
   (0 :: rat) \<le> 2932031007402667 / 17592186044416 \<and>
   map user.age users_1_2_2 = map (\<lambda>n. Fin (of_int n)) [1, 2, 2] \<and>
   sum_list (map abs [1, 2, 2 :: int]) < 2 ^ 53 \<and>
   double_sum (map user.age users_1_2_2) = Fin (of_int (sum_list [1, 2, 2])) \<and>
   calculateAverageAge (JArr users_1_2_2) =
     Inr (round_to_double (round_half_away_from_zero (2932031007402667 / 17592186044416) / 100)) \<and>
   round_half_away_from_zero (2932031007402667 / 17592186044416) = 167 \<and>
   length users_1_2_2 < 2 ^ 32 \<and>
   (\<exists>k r. calculateAverageAge (JArr users_1_2_2) = Inr (Fin r) \<and>
      round_to_double (of_int k / 100) = Fin r \<and>
      \<bar>of_int k - of_int (sum_list [1, 2, 2]) / of_nat (length [1, 2, 2 :: int]) * 100 :: rat\<bar> \<le>
        1 / 2 + \<bar>of_int (sum_list [1, 2, 2]) / of_nat (length [1, 2, 2 :: int]) * 100\<bar> / 2 ^ 51 \<and>
      \<bar>r - of_int k / 100\<bar> \<le> \<bar>of_int k / 100\<bar> / 2 ^ 53) \<and>
   users_20_21_22 \<noteq> [] \<and>
   map user.age users_20_21_22 = map Fin [20, 21, 22] \<and>
   list_all is_double (running_sums 0 [20, 21, 22]) \<and>
   is_double (sum_list [20, 21, 22] / of_nat (length [20, 21, 22 :: rat])) \<and>
   is_double (sum_list [20, 21, 22] / of_nat (length [20, 21, 22 :: rat]) * 100) \<and>
   double_mean_times_100 (map user.age users_20_21_22) = Fin 2100 \<and>
   calculateAverageAge (JStr (str ''not an array'')) =
     Inl (Error ''Users must be a non-empty array'')"
proof -
  have a: "users_1_2_2 \<noteq> []"
    "map user.age users_1_2_2 = map (\<lambda>n. Fin (of_int n)) [1, 2, 2]"
    "sum_list (map abs [1, 2, 2 :: int]) < 2 ^ 53"
    by (simp_all add: users_1_2_2_def)
  note b = users_1_2_2_steps
  note t1 = calculateAverageAge_half_up [of "JStr (str ''not an array'')" users_1_2_2
      "2932031007402667 / 17592186044416" "[1, 2, 2]" "[]"]
  from t1 a b(1,2) have r1:
    "double_sum (map user.age users_1_2_2) = Fin (of_int (sum_list [1, 2, 2]))"
    "calculateAverageAge (JArr users_1_2_2) =
       Inr (round_to_double (round_half_away_from_zero (2932031007402667 / 17592186044416) / 100))"
    "calculateAverageAge (JStr (str ''not an array'')) =
       Inl (Error ''Users must be a non-empty array'')"
    by (blast, blast, simp)
  have r2: "round_half_away_from_zero (2932031007402667 / 17592186044416) = 167"
    using b(3) by (simp only: round_half_away_nonneg [OF b(2)] of_int_numeral)
  have a4: "length users_1_2_2 < 2 ^ 32"
    by (simp add: users_1_2_2_def)
  from t1 a a4 have r4:
    "\<exists>k r. calculateAverageAge (JArr users_1_2_2) = Inr (Fin r) \<and>
      round_to_double (of_int k / 100) = Fin r \<and>
      \<bar>of_int k - of_int (sum_list [1, 2, 2]) / of_nat (length [1, 2, 2 :: int]) * 100 :: rat\<bar> \<le>
        1 / 2 + \<bar>of_int (sum_list [1, 2, 2]) / of_nat (length [1, 2, 2 :: int]) * 100\<bar> / 2 ^ 51 \<and>
      \<bar>r - of_int k / 100\<bar> \<le> \<bar>of_int k / 100\<bar> / 2 ^ 53"
    by blast
  have c: "users_20_21_22 \<noteq> []"
    "map user.age users_20_21_22 = map Fin [20, 21, 22]"
    "list_all is_double (running_sums 0 [20, 21, 22])"
    "is_double (sum_list [20, 21, 22] / of_nat (length [20, 21, 22 :: rat]))"
    "is_double (sum_list [20, 21, 22] / of_nat (length [20, 21, 22 :: rat]) * 100)"
    by (simp_all add: users_20_21_22_def)
  note t2 = calculateAverageAge_half_up [of "JNull" users_20_21_22 0 "[]" "[20, 21, 22]"]
  from t2 c have "double_mean_times_100 (map user.age users_20_21_22) =
      Fin (sum_list [20, 21, 22] / of_nat (length [20, 21, 22 :: rat]) * 100)"
    by blast
  then have r3: "double_mean_times_100 (map user.age users_20_21_22) = Fin 2100"
    by simp
  show ?thesis
    by (intro conjI) (rule a b(1,2) r1 r2 a4 r4 c r3)+
qed

section \<open>createUser\<close>

lemma validUserData_fields:
  "field validUserData ''email'' = JStr (str ''test@example.com'')"
  "field validUserData ''password'' = JStr (str ''Password123'')"
  "field validUserData ''name'' = JStr (str ''john'')"
  "field validUserData ''age'' = JNum (Fin 25)"
  by (simp_all add: field_def validUserData_def)

lemma validUserData_valid:
  "validateEmail (JStr (str ''test@example.com''))"
  "validatePassword (JStr (str ''Password123''))"
  "\<not> validateEmail (JStr (str ''invalid-email''))"
  "\<not> validatePassword (JStr (str ''weak''))"
  by (simp_all add: str_def emailRegex_def is_space_def digitRegex_test upperCaseRegex_test
      ascii_digit_def ascii_uppercase_def)

text \<open>The checks of \<open>createUser\<close> one after the other.\<close>

lemma createUser_steps:
  "createUser h userData =
     (if \<not> validateEmail (field userData ''email'') then Inl (Error ''Invalid email'')
      else if \<not> validatePassword (field userData ''password'') then Inl (Error ''Invalid password'')
      else if typeof (field userData ''age'') \<noteq> ''number'' \<or>
          (\<exists>n. field userData ''age'' = JNum n \<and> (js_lt n (Fin 0) \<or> js_gt n (Fin 150)))
        then Inl (Error ''Invalid age'')
      else (case formatUserName h (field userData ''name'') of
              Inl e \<Rightarrow> Inl e
            | Inr formatted \<Rightarrow>
                Inr \<lparr>email = field userData ''email'', name = formatted,
                     age = field userData ''age'', createdAt = now_toISOString h\<rparr>))"
  by (cases "field userData ''age''") (auto simp: createUser_def Let_def split: sum.splits)

text \<open>
  C1. When the email of the input passes \<open>validateEmail\<close>, its password passes
  \<open>validatePassword\<close>, its age is a Number from 0 to 150 and its name is a non-empty
  string, \<open>createUser\<close> returns a record of the email as it is, the name as
  \<open>formatUserName\<close> formats it, the age as it is and the time the host's clock gives.
\<close>

theorem createUser_success:
  assumes "validateEmail (field userData ''email'')"
    and "validatePassword (field userData ''password'')"
    and "field userData ''age'' = JNum n" and "js_ge n (Fin 0)" and "js_ge (Fin 150) n"
    and "field userData ''name'' = JStr s" and "s \<noteq> []"
  shows "\<exists>formatted. formatUserName h (JStr s) = Inr formatted \<and>
           createUser h userData =
             Inr \<lparr>email = field userData ''email'', name = formatted, age = JNum n,
                  createdAt = now_toISOString h\<rparr>"
proof -
  from assms(7) obtain c cs where "s = c # cs"
    by (cases s) auto
  then have "formatUserName h (JStr s) = Inr (toUpperCase h [c] @ toLowerCase h cs)"
    by (simp add: charAt_def slice_def)
  with assms show ?thesis
    by (simp add: createUser_steps js_ge_not_lt js_ge_not_gt)
qed

theorem createUser_success_witness:
  "createUser sample_host validUserData =
     Inr \<lparr>email = JStr (str ''test@example.com''), name = str ''John'', age = JNum (Fin 25),
          createdAt = now_toISOString sample_host\<rparr>"
proof -
  have "str ''john'' \<noteq> []"
    by (simp add: str_def)
  from createUser_success [of validUserData "Fin 25" "str ''john''" sample_host,
      unfolded validUserData_fields, OF validUserData_valid(1,2) refl _ _ refl this]
  obtain formatted where f: "formatUserName sample_host (JStr (str ''john'')) = Inr formatted"
    "createUser sample_host validUserData =
       Inr \<lparr>email = JStr (str ''test@example.com''), name = formatted, age = JNum (Fin 25),
            createdAt = now_toISOString sample_host\<rparr>"
    by auto
  from f(1) sample_host_john(1) have "formatted = str ''John''"
    by (metis Inr_inject)
  with f(2) show ?thesis
    by simp
qed



text \<open>
  C8. When the email and the password of the input are valid, \<open>createUser\<close> fails
  with \<^verbatim>\<open>Invalid age\<close> exactly when the age is not a Number, or is less than 0, or is
  greater than 150. The ages 0 and 150 are accepted.
\<close>

theorem createUser_age_check:
  assumes "validateEmail (field userData ''email'')"
    and "validatePassword (field userData ''password'')"
  shows "(createUser h userData = Inl (Error ''Invalid age'') \<longleftrightarrow>
            typeof (field userData ''age'') \<noteq> ''number'' \<or>
            (\<exists>n. field userData ''age'' = JNum n \<and> (js_lt n (Fin 0) \<or> js_gt n (Fin 150)))) \<and>
         (field userData ''age'' = JNum (Fin 0) \<or> field userData ''age'' = JNum (Fin 150) \<longrightarrow>
            createUser h userData \<noteq> Inl (Error ''Invalid age''))"
proof -
  let ?bad = "typeof (field userData ''age'') \<noteq> ''number'' \<or>
            (\<exists>n. field userData ''age'' = JNum n \<and> (js_lt n (Fin 0) \<or> js_gt n (Fin 150)))"
  have 1: "createUser h userData = Inl (Error ''Invalid age'')" if ?bad
    using that assms by (simp add: createUser_steps)
  have 2: "createUser h userData \<noteq> Inl (Error ''Invalid age'')" if "\<not> ?bad"
  proof (cases "formatUserName h (field userData ''name'')")
    case (Inl e)
    then have "e = Error ''Name must be a non-empty string''"
      by (simp add: formatUserName_error_iff)
    with Inl that assms show ?thesis
      by (simp add: createUser_steps)
  next
    case (Inr r)
    with that assms show ?thesis
      by (simp add: createUser_steps)
  qed
  have 3: "\<not> ?bad"
    if "field userData ''age'' = JNum (Fin 0) \<or> field userData ''age'' = JNum (Fin 150)"
    using that by auto
  from 1 2 3 show ?thesis
    by blast
qed

theorem createUser_age_check_witness:
  "createUser sample_host (validUserData(''age'' \<mapsto> JNum (Fin (- 5)))) =
     Inl (Error ''Invalid age'') \<and>
   createUser sample_host (validUserData(''age'' \<mapsto> JNum (Fin 200))) =
     Inl (Error ''Invalid age'') \<and>
   createUser sample_host (validUserData(''age'' \<mapsto> JNum (Fin 0))) \<noteq>
     Inl (Error ''Invalid age'') \<and>
   createUser sample_host (validUserData(''age'' \<mapsto> JNum (Fin 150))) \<noteq>
     Inl (Error ''Invalid age'')"
proof -
  have v: "validateEmail (field (validUserData(''age'' \<mapsto> a)) ''email'')"
    "validatePassword (field (validUserData(''age'' \<mapsto> a)) ''password'')" for a
    by (simp_all add: field_def validUserData_def validUserData_valid
        del: validateEmail.simps validatePassword.simps)
  have f: "field (validUserData(''age'' \<mapsto> a)) ''age'' = a" for a
    by (simp add: field_def)
  note k = createUser_age_check [of "validUserData(''age'' \<mapsto> a)" sample_host for a,
      OF v, unfolded f]
  show ?thesis
    using k [of "JNum (Fin (- 5))"] k [of "JNum (Fin 200)"] k [of "JNum (Fin 0)"]
      k [of "JNum (Fin 150)"]
    by simp
qed

end
